theory Spec2Isabelle
  imports Main
begin

section \<open>The NBA data lake scripts: effects, exceptions and external services\<close>

text \<open>
  The two scripts (\<^verbatim>\<open>nba_visualization.py\<close> and \<^verbatim>\<open>setup_nba_data_lake.py\<close>) are
  sequences of calls into external services (Athena, S3, Glue, an HTTP feed, pandas).
  Every effect a function performs is appended to a log of events, which is passed in and
  returned; what a service answers is a parameter of the model. A Python exception is a
  value of \<open>py_exn\<close>, and a function that may raise returns \<open>py_exn + 'a\<close>.
\<close>

datatype py_exn =
    Exception string        \<comment> \<open>\<^verbatim>\<open>raise Exception(msg)\<close> in the scripts themselves\<close>
  | LibraryError string     \<comment> \<open>any exception raised inside boto3, requests or pandas\<close>
  | TypeError string        \<comment> \<open>raised by the interpreter, e.g. iterating a non-iterable\<close>
  | ValueError string       \<comment> \<open>an int too long to be written in decimal\<close>
  | RecursionError string   \<comment> \<open>nesting beyond the interpreter's recursion limit\<close>

record table_input =
  table_name :: string
  columns :: "(string \<times> string) list"
  location :: string
  input_format :: string
  output_format :: string
  serialization_library :: string
  table_type :: string

datatype event =
    StartQueryExecution string string string
      \<comment> \<open>QueryString, Database, OutputLocation\<close>
  | GetQueryExecution string
  | Sleep nat
  | Print string
  | ReadCsv string
  | ShowPlot
  | CreateBucket string "string option"
      \<comment> \<open>Bucket, LocationConstraint\<close>
  | CreateDatabase string string
      \<comment> \<open>Name, Description\<close>
  | HttpGet "string option" "string option"
      \<comment> \<open>URL, subscription key\<close>
  | PutObject string string string
      \<comment> \<open>Bucket, Key, Body\<close>
  | CreateTable string table_input

type_synonym trace = "event list"

subsection \<open>\<^verbatim>\<open>nba_visualization.py\<close>\<close>

text \<open>
  The Athena client and pandas, as the script sees them. \<open>get_query_execution sv h k\<close> is
  the answer to the status read number \<open>k\<close> (counted from 0) for the handle \<open>h\<close>: either
  an exception of the client or the string found at
  \<^verbatim>\<open>status["QueryExecution"]["Status"]["State"]\<close>.
\<close>

record 'df services =
  start_query_execution :: "string \<Rightarrow> string \<Rightarrow> string \<Rightarrow> py_exn + string"
  get_query_execution :: "string \<Rightarrow> nat \<Rightarrow> py_exn + string"
  read_csv :: "string \<Rightarrow> py_exn + 'df"
  barplot :: "'df \<Rightarrow> py_exn option"

definition database_name :: string where
  "database_name = ''glue_nba_data_lake''"

definition query_output_location :: string where
  "query_output_location = ''s3://players-nba/raw-data/''"

definition query_athena ::
  "'df services \<Rightarrow> string \<Rightarrow> string \<Rightarrow> string \<Rightarrow> trace \<Rightarrow> (py_exn + string) \<times> trace" where
  "query_athena sv database query output_location tr =
     (start_query_execution sv query database output_location,
      tr @ [StartQueryExecution query database output_location])"

text \<open>
  The \<^verbatim>\<open>while True\<close> loop of \<^verbatim>\<open>fetch_query_results\<close>. It may run forever, so it is given
  fuel: one unit per iteration. \<open>None\<close> says that the fuel ran out with the loop still
  polling; the log is then the prefix of the run made so far.
\<close>

fun poll_loop ::
  "nat \<Rightarrow> 'df services \<Rightarrow> string \<Rightarrow> trace \<Rightarrow> (py_exn + string) option \<times> trace" where
  "poll_loop 0 sv query_execution_id tr = (None, tr)"
| "poll_loop (Suc fuel) sv query_execution_id tr =
     (case get_query_execution sv query_execution_id
             (count_list tr (GetQueryExecution query_execution_id)) of
        Inl e \<Rightarrow> (Some (Inl e), tr @ [GetQueryExecution query_execution_id])
      | Inr state \<Rightarrow>
          if state \<in> set [''SUCCEEDED'', ''FAILED'']
          then (Some (Inr state), tr @ [GetQueryExecution query_execution_id])
          else poll_loop fuel sv query_execution_id
                 (tr @ [GetQueryExecution query_execution_id, Sleep 2]))"

definition fetch_query_results ::
  "nat \<Rightarrow> 'df services \<Rightarrow> string \<Rightarrow> string \<Rightarrow> trace \<Rightarrow> (py_exn + string) option \<times> trace" where
  "fetch_query_results fuel sv query_execution_id output_location tr =
     (case poll_loop fuel sv query_execution_id tr of
        (None, tr1) \<Rightarrow> (None, tr1)
      | (Some (Inl e), tr1) \<Rightarrow> (Some (Inl e), tr1)
      | (Some (Inr state), tr1) \<Rightarrow>
          if state = ''SUCCEEDED''
          then (let result_s3_path = output_location @ query_execution_id @ ''.csv''
                in (Some (Inr result_s3_path),
                    tr1 @ [Print ''Query succeeded!'',
                           Print (''Query results saved to: '' @ result_s3_path)]))
          else (Some (Inl (Exception ''Query failed!'')), tr1))"

definition visualize_data ::
  "'df services \<Rightarrow> string \<Rightarrow> trace \<Rightarrow> (py_exn + unit) \<times> trace" where
  "visualize_data sv file_path tr =
     (case read_csv sv file_path of
        Inl e \<Rightarrow> (Inl e, tr @ [ReadCsv file_path])
      | Inr data \<Rightarrow>
          (case barplot sv data of
             Some e \<Rightarrow> (Inl e, tr @ [ReadCsv file_path])
           | None \<Rightarrow> (Inr (), tr @ [ReadCsv file_path, ShowPlot])))"

definition sql_query :: string where
  "sql_query = [CHR 0x0A] @ ''    SELECT Team, Points'' @ [CHR 0x0A]
               @ ''    FROM nba_players'' @ [CHR 0x0A] @ ''    ''"

definition visualization_main ::
  "nat \<Rightarrow> 'df services \<Rightarrow> trace \<Rightarrow> (py_exn + unit) option \<times> trace" where
  "visualization_main fuel sv tr =
     (case query_athena sv database_name sql_query query_output_location
             (tr @ [Print ''Running Athena query...'']) of
        (Inl e, tr1) \<Rightarrow> (Some (Inl e), tr1)
      | (Inr query_execution_id, tr1) \<Rightarrow>
          (case fetch_query_results fuel sv query_execution_id query_output_location
                  (tr1 @ [Print ''Fetching query results...'']) of
             (None, tr2) \<Rightarrow> (None, tr2)
           | (Some (Inl e), tr2) \<Rightarrow> (Some (Inl e), tr2)
           | (Some (Inr result_s3_path), tr2) \<Rightarrow>
               (case visualize_data sv result_s3_path
                       (tr2 @ [Print ''Visualizing data...'']) of
                  (r, tr3) \<Rightarrow> (Some r, tr3))))"

text \<open>What the loop tests after each status read: does it go round again?\<close>

definition keeps_polling :: "py_exn + string \<Rightarrow> bool" where
  "keeps_polling r = (case r of Inl e \<Rightarrow> False
                      | Inr state \<Rightarrow> state \<notin> set [''SUCCEEDED'', ''FAILED''])"

definition polls :: "string \<Rightarrow> trace \<Rightarrow> nat" where
  "polls h tr = count_list tr (GetQueryExecution h)"

fun is_submission :: "event \<Rightarrow> bool" where
  "is_submission (StartQueryExecution q d out) = True"
| "is_submission e = False"


definition round_trips :: "string \<Rightarrow> nat \<Rightarrow> trace" where
  "round_trips h n = concat (replicate n [GetQueryExecution h, Sleep 2])"

text \<open>
  A fake engine for concrete runs: the client refuses an empty query string as boto3's
  parameter validation does and hands out one handle otherwise; a status read gives
  RUNNING for the first \<open>N\<close> reads and \<open>final\<close> from then on.
\<close>

definition fake_engine :: "nat \<Rightarrow> string \<Rightarrow> unit services" where
  "fake_engine N final =
     \<lparr>start_query_execution =
        (\<lambda>query database output_location.
           if query = []
           then Inl (LibraryError
                  ''Invalid length for parameter QueryString, value: 0, valid min length: 1'')
           else Inr ''q-0001''),
      get_query_execution = (\<lambda>h k. if k < N then Inr ''RUNNING'' else Inr final),
      read_csv = (\<lambda>file_path. Inr ()),
      barplot = (\<lambda>data. None)\<rparr>"

subsection \<open>\<^verbatim>\<open>setup_nba_data_lake.py\<close>\<close>

text \<open>
  What \<^verbatim>\<open>response.json()\<close> gives and \<^verbatim>\<open>json.dumps\<close> takes: Python values decoded from
  JSON. A Python \<^verbatim>\<open>str\<close> is its list of code points. A float is not a number (the
  decoder accepts \<^verbatim>\<open>NaN\<close>), infinite (\<^verbatim>\<open>Infinity\<close>, or a literal such as \<^verbatim>\<open>1e999\<close>), or a
  finite value, given by its sign, the decimal digits that \<^verbatim>\<open>float.__repr__\<close> writes
  for it (read as a number) and the place of the decimal point among these digits
  (\<open>decpt\<close> digits stand before the point). A dict keeps its insertion order, so it is
  an association list.
\<close>

type_synonym py_str = "nat list"

datatype py_float = FNaN | FInf bool | FNum bool nat int

datatype json =
    JNull
  | JBool bool
  | JInt int
  | JFloat py_float
  | JString py_str
  | JArray "json list"
  | JObject "(py_str \<times> json) list"

definition ascii :: "string \<Rightarrow> py_str" where
  "ascii s = map of_char s"

text \<open>Python's truth value of an object, as \<^verbatim>\<open>if nba_data:\<close> tests it.\<close>

fun truthy :: "json \<Rightarrow> bool" where
  "truthy JNull = False"
| "truthy (JBool b) = b"
| "truthy (JInt n) = (n \<noteq> 0)"
| "truthy (JFloat f) = (case f of FNum negative m decpt \<Rightarrow> m \<noteq> 0 | _ \<Rightarrow> True)"
| "truthy (JString s) = (s \<noteq> [])"
| "truthy (JArray xs) = (xs \<noteq> [])"
| "truthy (JObject kvs) = (kvs \<noteq> [])"

text \<open>
  \<^verbatim>\<open>for record in data\<close>: a list gives its elements, a dict its keys, a string its
  characters; anything else is not iterable.
\<close>

fun py_iter :: "json \<Rightarrow> py_exn + json list" where
  "py_iter (JArray xs) = Inr xs"
| "py_iter (JObject kvs) = Inr (map (\<lambda>kv. JString (fst kv)) kvs)"
| "py_iter (JString s) = Inr (map (\<lambda>c. JString [c]) s)"
| "py_iter JNull = Inl (TypeError ([CHR 0x27] @ ''NoneType' object is not iterable''))"
| "py_iter (JBool b) = Inl (TypeError ([CHR 0x27] @ ''bool' object is not iterable''))"
| "py_iter (JInt n) = Inl (TypeError ([CHR 0x27] @ ''int' object is not iterable''))"
| "py_iter (JFloat f) = Inl (TypeError ([CHR 0x27] @ ''float' object is not iterable''))"

text \<open>\<^verbatim>\<open>sep.join(xs)\<close> of Python's \<^verbatim>\<open>str\<close>.\<close>

fun join :: "string \<Rightarrow> string list \<Rightarrow> string" where
  "join sep [] = []"
| "join sep [x] = x"
| "join sep (x # y # ys) = x @ sep @ join sep (y # ys)"

text \<open>\<^verbatim>\<open>str(n)\<close> of a Python int: decimal digits, a minus sign when negative.\<close>

definition digit_char :: "nat \<Rightarrow> char" where
  "digit_char d = ''0123456789abcdef'' ! (d mod 16)"

function str_nat :: "nat \<Rightarrow> string" where
  "str_nat n = (if n < 10 then [digit_char n] else str_nat (n div 10) @ [digit_char (n mod 10)])"
  by pat_completeness auto
termination
  by (relation "measure id") auto

declare str_nat.simps [simp del]

definition str_int :: "int \<Rightarrow> string" where
  "str_int i = (if i < 0 then CHR ''-'' # str_nat (nat (- i)) else str_nat (nat i))"

text \<open>
  \<^verbatim>\<open>float.__repr__\<close> of a finite float with digits \<open>m\<close> and decimal point at \<open>decpt\<close>:
  exponent notation when \<open>decpt \<le> -4\<close> or \<open>decpt > 16\<close> (the exponent has a sign and at
  least two digits), positional notation with at least one digit after the point
  otherwise.
\<close>

definition exponent_text :: "int \<Rightarrow> string" where
  "exponent_text e =
     (if e < 0 then [CHR ''-''] else [CHR ''+''])
     @ (if \<bar>e\<bar> < 10 then [CHR ''0''] else []) @ str_nat (nat \<bar>e\<bar>)"

definition float_repr_digits :: "nat \<Rightarrow> int \<Rightarrow> string" where
  "float_repr_digits m decpt =
     (if m = 0 then ''0.0''
      else let digits = str_nat m; n = length digits
           in if decpt \<le> - 4 \<or> 16 < decpt
              then hd digits # (if n = 1 then [] else ''.'' @ tl digits)
                   @ ''e'' @ exponent_text (decpt - 1)
              else if decpt \<le> 0
              then ''0.'' @ replicate (nat (- decpt)) CHR ''0'' @ digits
              else if int n \<le> decpt
              then digits @ replicate (nat decpt - n) CHR ''0'' @ ''.0''
              else take (nat decpt) digits @ ''.'' @ drop (nat decpt) digits)"

text \<open>
  How \<^verbatim>\<open>json.dumps\<close> writes a float (\<^verbatim>\<open>allow_nan\<close> is left at its default): the three
  values that are not finite get names that JSON does not have.
\<close>

fun floatstr :: "py_float \<Rightarrow> string" where
  "floatstr FNaN = ''NaN''"
| "floatstr (FInf negative) = (if negative then ''-Infinity'' else ''Infinity'')"
| "floatstr (FNum negative m decpt) =
     (if negative then [CHR ''-''] else []) @ float_repr_digits m decpt"

text \<open>
  How \<^verbatim>\<open>json.dumps\<close> writes a string (\<^verbatim>\<open>ensure_ascii\<close> is left at its default): the
  backslash, the double quote and every code point outside the printable ASCII range
  \<^verbatim>\<open>' '..'~'\<close> are escaped, a code point from \<^verbatim>\<open>0x10000\<close> on as a surrogate pair.
\<close>

definition u_escape :: "nat \<Rightarrow> string" where
  "u_escape n = [CHR 0x5C, CHR ''u'', digit_char (n div 4096), digit_char (n div 256),
                 digit_char (n div 16), digit_char n]"

definition escape_char :: "nat \<Rightarrow> string" where
  "escape_char c =
     (if c = 0x5C then [CHR 0x5C, CHR 0x5C]
      else if c = 0x22 then [CHR 0x5C, CHR 0x22]
      else if c = 0x08 then [CHR 0x5C, CHR ''b'']
      else if c = 0x0C then [CHR 0x5C, CHR ''f'']
      else if c = 0x0A then [CHR 0x5C, CHR ''n'']
      else if c = 0x0D then [CHR 0x5C, CHR ''r'']
      else if c = 0x09 then [CHR 0x5C, CHR ''t'']
      else if 0x20 \<le> c \<and> c \<le> 0x7E then [char_of c]
      else if c < 0x10000 then u_escape c
      else u_escape (0xD800 + ((c - 0x10000) div 0x400) mod 0x400)
           @ u_escape (0xDC00 + (c - 0x10000) mod 0x400))"

definition encode_basestring_ascii :: "py_str \<Rightarrow> string" where
  "encode_basestring_ascii s = [CHR 0x22] @ concat (map escape_char s) @ [CHR 0x22]"

text \<open>
  Two settings of the interpreter decide whether \<^verbatim>\<open>json.dumps\<close> raises: the longest int
  it converts to decimal (\<^verbatim>\<open>sys.get_int_max_str_digits()\<close>, 4300 unless changed, 0 for no
  limit) and how many containers may be open inside one another before the recursion
  limit is reached.
\<close>

record interpreter =
  int_max_str_digits :: nat
  recursion_limit :: nat

definition int_repr :: "interpreter \<Rightarrow> int \<Rightarrow> py_exn + string" where
  "int_repr py n =
     (if 0 < int_max_str_digits py \<and> int_max_str_digits py < length (str_nat (nat \<bar>n\<bar>))
      then Inl (ValueError ''Exceeds the limit for integer string conversion'')
      else Inr (str_int n))"

text \<open>
  \<^verbatim>\<open>json.dumps\<close> with its default arguments (separators \<^verbatim>\<open>", "\<close> and \<^verbatim>\<open>": "\<close>, no
  indent), as the standard library's encoder works: it visits the value from left to
  right and the first exception ends it. \<open>depth\<close> counts the containers that are open.
\<close>

fun encode :: "interpreter \<Rightarrow> nat \<Rightarrow> json \<Rightarrow> py_exn + string"
  and encode_items :: "interpreter \<Rightarrow> nat \<Rightarrow> json list \<Rightarrow> py_exn + string list"
  and encode_members ::
    "interpreter \<Rightarrow> nat \<Rightarrow> (py_str \<times> json) list \<Rightarrow> py_exn + string list"
where
  "encode py depth JNull = Inr ''null''"
| "encode py depth (JBool b) = Inr (if b then ''true'' else ''false'')"
| "encode py depth (JInt n) = int_repr py n"
| "encode py depth (JFloat f) = Inr (floatstr f)"
| "encode py depth (JString s) = Inr (encode_basestring_ascii s)"
| "encode py depth (JArray xs) =
     (if recursion_limit py \<le> depth
      then Inl (RecursionError ''maximum recursion depth exceeded while encoding a JSON object'')
      else case encode_items py (Suc depth) xs of
             Inl e \<Rightarrow> Inl e
           | Inr texts \<Rightarrow> Inr (''['' @ join '', '' texts @ '']''))"
| "encode py depth (JObject kvs) =
     (if recursion_limit py \<le> depth
      then Inl (RecursionError ''maximum recursion depth exceeded while encoding a JSON object'')
      else case encode_members py (Suc depth) kvs of
             Inl e \<Rightarrow> Inl e
           | Inr texts \<Rightarrow> Inr (''{'' @ join '', '' texts @ ''}''))"
| "encode_items py depth [] = Inr []"
| "encode_items py depth (x # xs) =
     (case encode py depth x of
        Inl e \<Rightarrow> Inl e
      | Inr text \<Rightarrow>
          (case encode_items py depth xs of
             Inl e \<Rightarrow> Inl e
           | Inr texts \<Rightarrow> Inr (text # texts)))"
| "encode_members py depth [] = Inr []"
| "encode_members py depth ((k, v) # kvs) =
     (case encode py depth v of
        Inl e \<Rightarrow> Inl e
      | Inr text \<Rightarrow>
          (case encode_members py depth kvs of
             Inl e \<Rightarrow> Inl e
           | Inr texts \<Rightarrow> Inr ((encode_basestring_ascii k @ '': '' @ text) # texts)))"

definition json_dumps :: "interpreter \<Rightarrow> json \<Rightarrow> py_exn + string" where
  "json_dumps py v = encode py 0 v"

text \<open>
  \<^verbatim>\<open>json.dumps(record) for record in data\<close>, consumed by \<^verbatim>\<open>join\<close>: the records are
  encoded one after the other and the first exception ends it.
\<close>

fun dumps_each :: "interpreter \<Rightarrow> json list \<Rightarrow> py_exn + string list" where
  "dumps_each py [] = Inr []"
| "dumps_each py (record # records) =
     (case json_dumps py record of
        Inl e \<Rightarrow> Inl e
      | Inr text \<Rightarrow>
          (case dumps_each py records of
             Inl e \<Rightarrow> Inl e
           | Inr texts \<Rightarrow> Inr (text # texts)))"

text \<open>
  The text \<^verbatim>\<open>json.dumps\<close> writes for a value when nothing raises, and the values for
  which nothing raises: every int is within the digit limit and the nesting within the
  recursion limit.
\<close>

fun json_text :: "json \<Rightarrow> string" where
  "json_text JNull = ''null''"
| "json_text (JBool b) = (if b then ''true'' else ''false'')"
| "json_text (JInt n) = str_int n"
| "json_text (JFloat f) = floatstr f"
| "json_text (JString s) = encode_basestring_ascii s"
| "json_text (JArray xs) = ''['' @ join '', '' (map json_text xs) @ '']''"
| "json_text (JObject kvs) =
     ''{'' @ join '', '' (map (\<lambda>kv. encode_basestring_ascii (fst kv) @ '': ''
                                     @ json_text (snd kv)) kvs) @ ''}''"

fun fits :: "interpreter \<Rightarrow> nat \<Rightarrow> json \<Rightarrow> bool" where
  "fits py depth (JInt n) =
     (\<not> (0 < int_max_str_digits py \<and> int_max_str_digits py < length (str_nat (nat \<bar>n\<bar>))))"
| "fits py depth (JArray xs) =
     (depth < recursion_limit py \<and> (\<forall>x\<in>set xs. fits py (Suc depth) x))"
| "fits py depth (JObject kvs) =
     (depth < recursion_limit py \<and> (\<forall>kv\<in>set kvs. fits py (Suc depth) (snd kv)))"
| "fits py depth v = True"

text \<open>The values that hold no float other than finite ones.\<close>

fun finite_floats :: "json \<Rightarrow> bool" where
  "finite_floats (JFloat f) = (case f of FNum negative m decpt \<Rightarrow> True | _ \<Rightarrow> False)"
| "finite_floats (JArray xs) = (\<forall>x\<in>set xs. finite_floats x)"
| "finite_floats (JObject kvs) = (\<forall>kv\<in>set kvs. finite_floats (snd kv))"
| "finite_floats v = True"

definition cpython :: interpreter where
  "cpython = \<lparr>int_max_str_digits = 4300, recursion_limit = 1000\<rparr>"

definition REGION :: string where
  "REGION = ''us-west-2''"

definition BUCKET_NAME :: string where
  "BUCKET_NAME = ''sanalytics-data-lake''"

definition GLUE_DATABASE :: string where
  "GLUE_DATABASE = ''glue_nba_data_lake''"

definition ATHENA_OUTPUT :: string where
  "ATHENA_OUTPUT = ''s3://'' @ BUCKET_NAME @ ''/athena-results/''"

text \<open>
  An HTTP response of \<^verbatim>\<open>requests\<close>: \<open>json_body\<close> is what \<^verbatim>\<open>response.json()\<close> does
  (it raises when the body is not JSON).
\<close>

record http_response =
  status_code :: nat
  reason :: string
  url :: string
  json_body :: "py_exn + json"

text \<open>
  The environment of the setup script: the interpreter, the two variables read with \<^verbatim>\<open>os.getenv\<close>
  (\<open>None\<close> when unset) and the answers of S3, Glue, Athena and the feed; \<open>None\<close> from a
  client call is success, \<open>Some e\<close> the exception it raises.
\<close>

record aws =
  python :: interpreter
  API_KEY :: "string option"
  NBA_ENDPOINT :: "string option"
  s3_create_bucket :: "string \<Rightarrow> string option \<Rightarrow> py_exn option"
  glue_create_database :: "string \<Rightarrow> string \<Rightarrow> py_exn option"
  requests_get :: "string option \<Rightarrow> string option \<Rightarrow> py_exn + http_response"
  s3_put_object :: "string \<Rightarrow> string \<Rightarrow> string \<Rightarrow> py_exn option"
  glue_create_table :: "string \<Rightarrow> table_input \<Rightarrow> py_exn option"
  athena_start_query_execution :: "string \<Rightarrow> string \<Rightarrow> string \<Rightarrow> py_exn option"

text \<open>\<^verbatim>\<open>str(error)\<close>, as the f-strings of the \<^verbatim>\<open>except\<close> blocks print it.\<close>

fun exn_str :: "py_exn \<Rightarrow> string" where
  "exn_str (Exception m) = m"
| "exn_str (LibraryError m) = m"
| "exn_str (TypeError m) = m"
| "exn_str (ValueError m) = m"
| "exn_str (RecursionError m) = m"

definition initialize_s3_bucket :: "aws \<Rightarrow> trace \<Rightarrow> trace" where
  "initialize_s3_bucket env tr =
     (let config = (if REGION = ''us-east-1'' then None else Some REGION);
          tr1 = tr @ [CreateBucket BUCKET_NAME config]
      in case s3_create_bucket env BUCKET_NAME config of
           None \<Rightarrow> tr1 @ [Print (''S3 bucket '' @ [CHR 0x27] @ BUCKET_NAME @ [CHR 0x27]
                         @ '' created successfully.'')]
         | Some error \<Rightarrow> tr1 @ [Print (''Failed to create S3 bucket: '' @ exn_str error)])"

definition setup_glue_database :: "aws \<Rightarrow> trace \<Rightarrow> trace" where
  "setup_glue_database env tr =
     (let description = ''Database for NBA sports analytics data.'';
          tr1 = tr @ [CreateDatabase GLUE_DATABASE description]
      in case glue_create_database env GLUE_DATABASE description of
           None \<Rightarrow> tr1 @ [Print (''Glue database '' @ [CHR 0x27] @ GLUE_DATABASE @ [CHR 0x27]
                         @ '' created successfully.'')]
         | Some error \<Rightarrow> tr1 @ [Print (''Error creating Glue database: '' @ exn_str error)])"

text \<open>\<^verbatim>\<open>response.raise_for_status()\<close>: an HTTPError for a 4xx or 5xx status.\<close>

definition raise_for_status :: "http_response \<Rightarrow> py_exn option" where
  "raise_for_status response =
     (if 400 \<le> status_code response \<and> status_code response < 500
      then Some (LibraryError (str_nat (status_code response) @ '' Client Error: ''
                               @ reason response @ '' for url: '' @ url response))
      else if 500 \<le> status_code response \<and> status_code response < 600
      then Some (LibraryError (str_nat (status_code response) @ '' Server Error: ''
                               @ reason response @ '' for url: '' @ url response))
      else None)"

definition retrieve_nba_data :: "aws \<Rightarrow> trace \<Rightarrow> json \<times> trace" where
  "retrieve_nba_data env tr =
     (let tr1 = tr @ [HttpGet (NBA_ENDPOINT env) (API_KEY env)]
      in case requests_get env (NBA_ENDPOINT env) (API_KEY env) of
           Inl error \<Rightarrow>
             (JArray [], tr1 @ [Print (''Error fetching NBA data: '' @ exn_str error)])
         | Inr response \<Rightarrow>
             (case raise_for_status response of
                Some error \<Rightarrow>
                  (JArray [], tr1 @ [Print (''Error fetching NBA data: '' @ exn_str error)])
              | None \<Rightarrow>
                  (case json_body response of
                     Inl error \<Rightarrow>
                       (JArray [],
                        tr1 @ [Print ''Successfully retrieved NBA data.'',
                               Print (''Error fetching NBA data: '' @ exn_str error)])
                   | Inr data \<Rightarrow>
                       (data, tr1 @ [Print ''Successfully retrieved NBA data.'']))))"

definition format_as_jsonl ::
  "interpreter \<Rightarrow> json \<Rightarrow> trace \<Rightarrow> (py_exn + string) \<times> trace" where
  "format_as_jsonl py data tr =
     (let tr1 = tr @ [Print ''Formatting data to line-delimited JSON.'']
      in case py_iter data of
           Inl e \<Rightarrow> (Inl e, tr1)
         | Inr records \<Rightarrow>
             (case dumps_each py records of
                Inl e \<Rightarrow> (Inl e, tr1)
              | Inr texts \<Rightarrow> (Inr (join [CHR 0x0A] texts), tr1)))"

definition upload_to_s3 :: "aws \<Rightarrow> string \<Rightarrow> string \<Rightarrow> trace \<Rightarrow> trace" where
  "upload_to_s3 env content key tr =
     (let tr1 = tr @ [PutObject BUCKET_NAME key content]
      in case s3_put_object env BUCKET_NAME key content of
           None \<Rightarrow> tr1 @ [Print (''Uploaded data to S3 under key: '' @ key)]
         | Some error \<Rightarrow> tr1 @ [Print (''Error uploading data to S3: '' @ exn_str error)])"

definition nba_players :: table_input where
  "nba_players =
     \<lparr>table_name = ''nba_players'',
      columns = [(''PlayerID'', ''int''), (''FirstName'', ''string''),
                 (''LastName'', ''string''), (''Team'', ''string''),
                 (''Position'', ''string''), (''Points'', ''int'')],
      location = ''s3://'' @ BUCKET_NAME @ ''/raw-data/'',
      input_format = ''org.apache.hadoop.mapred.TextInputFormat'',
      output_format = ''org.apache.hadoop.hive.ql.io.HiveIgnoreKeyTextOutputFormat'',
      serialization_library = ''org.openx.data.jsonserde.JsonSerDe'',
      table_type = ''EXTERNAL_TABLE''\<rparr>"

definition define_glue_table :: "aws \<Rightarrow> trace \<Rightarrow> trace" where
  "define_glue_table env tr =
     (let tr1 = tr @ [CreateTable GLUE_DATABASE nba_players]
      in case glue_create_table env GLUE_DATABASE nba_players of
           None \<Rightarrow> tr1 @ [Print ''Glue table 'nba_players' created successfully.'']
         | Some error \<Rightarrow> tr1 @ [Print (''Error creating Glue table: '' @ exn_str error)])"

definition configure_athena_output :: "aws \<Rightarrow> trace \<Rightarrow> trace" where
  "configure_athena_output env tr =
     (let query = ''CREATE DATABASE IF NOT EXISTS nba_analytics'';
          tr1 = tr @ [StartQueryExecution query GLUE_DATABASE ATHENA_OUTPUT]
      in case athena_start_query_execution env query GLUE_DATABASE ATHENA_OUTPUT of
           None \<Rightarrow> tr1 @ [Print ''Athena output location configured successfully.'']
         | Some error \<Rightarrow> tr1 @ [Print (''Error configuring Athena output: '' @ exn_str error)])"

definition setup_main :: "aws \<Rightarrow> trace \<Rightarrow> (py_exn + unit) \<times> trace" where
  "setup_main env tr =
     (let tr1 = initialize_s3_bucket env (tr @ [Print ''Starting NBA data lake setup...'']);
          tr2 = setup_glue_database env (tr1 @ [Sleep 5]);
          (nba_data, tr3) = retrieve_nba_data env tr2;
          finish = (\<lambda>tr4. (Inr (), configure_athena_output env (define_glue_table env tr4)
                                     @ [Print ''NBA data lake setup completed.'']))
      in if truthy nba_data
         then (case format_as_jsonl (python env) nba_data tr3 of
                 (Inl e, tr4) \<Rightarrow> (Inl e, tr4)
               | (Inr jsonl_data, tr4) \<Rightarrow>
                   finish (upload_to_s3 env jsonl_data ''raw-data/nba_player_data.jsonl'' tr4))
         else finish tr3)"

text \<open>Reading a log: the objects written to storage, and the lines of a blob.\<close>

fun is_put_object :: "event \<Rightarrow> bool" where
  "is_put_object (PutObject b k body) = True"
| "is_put_object e = False"

fun split_lines :: "string \<Rightarrow> string list" where
  "split_lines [] = [[]]"
| "split_lines (c # cs) =
     (if c = CHR 0x0A then [] # split_lines cs
      else (case split_lines cs of l # ls \<Rightarrow> (c # l) # ls | [] \<Rightarrow> [[c]]))"

text \<open>
  What a valid JSON text is (RFC 8259), as a recogniser that reads the text one character
  at a time and keeps a stack of the arrays and objects it is inside. It accepts a part
  of JSON: the only white space between tokens is the space.
\<close>

datatype ctx = InArray | InObject

datatype mode =
    Value | ValueOrClose | KeyOrClose | Key | Colon | After
  | Str bool | Esc bool | Hex nat bool
  | Lit string
  | Minus | Zero | Digits | Frac0 | Frac | Exp0 | ExpSign | ExpDigits

definition is_digit :: "char \<Rightarrow> bool" where
  "is_digit c = (c \<in> set ''0123456789'')"

definition is_hex :: "char \<Rightarrow> bool" where
  "is_hex c = (c \<in> set ''0123456789abcdefABCDEF'')"

fun after_value :: "ctx list \<Rightarrow> char \<Rightarrow> (mode \<times> ctx list) option" where
  "after_value [] c = (if c = CHR '' '' then Some (After, []) else None)"
| "after_value (InArray # K) c =
     (if c = CHR '' '' then Some (After, InArray # K)
      else if c = CHR '','' then Some (Value, InArray # K)
      else if c = CHR '']'' then Some (After, K)
      else None)"
| "after_value (InObject # K) c =
     (if c = CHR '' '' then Some (After, InObject # K)
      else if c = CHR '','' then Some (Key, InObject # K)
      else if c = CHR ''}'' then Some (After, K)
      else None)"

definition start_value :: "ctx list \<Rightarrow> char \<Rightarrow> (mode \<times> ctx list) option" where
  "start_value K c =
     (if c = CHR '' '' then Some (Value, K)
      else if c = CHR 0x22 then Some (Str False, K)
      else if c = CHR ''['' then Some (ValueOrClose, InArray # K)
      else if c = CHR ''{'' then Some (KeyOrClose, InObject # K)
      else if c = CHR ''n'' then Some (Lit ''ull'', K)
      else if c = CHR ''t'' then Some (Lit ''rue'', K)
      else if c = CHR ''f'' then Some (Lit ''alse'', K)
      else if c = CHR ''-'' then Some (Minus, K)
      else if c = CHR ''0'' then Some (Zero, K)
      else if is_digit c then Some (Digits, K)
      else None)"

fun step :: "mode \<Rightarrow> ctx list \<Rightarrow> char \<Rightarrow> (mode \<times> ctx list) option" where
  "step Value K c = start_value K c"
| "step ValueOrClose K c = (if c = CHR '']'' then Some (After, tl K) else start_value K c)"
| "step KeyOrClose K c =
     (if c = CHR ''}'' then Some (After, tl K)
      else if c = CHR 0x22 then Some (Str True, K)
      else if c = CHR '' '' then Some (KeyOrClose, K)
      else None)"
| "step Key K c =
     (if c = CHR 0x22 then Some (Str True, K)
      else if c = CHR '' '' then Some (Key, K)
      else None)"
| "step Colon K c =
     (if c = CHR '':'' then Some (Value, K)
      else if c = CHR '' '' then Some (Colon, K)
      else None)"
| "step After K c = after_value K c"
| "step (Str k) K c =
     (if c = CHR 0x22 then Some (if k then Colon else After, K)
      else if c = CHR 0x5C then Some (Esc k, K)
      else if (of_char c :: nat) < 0x20 then None
      else Some (Str k, K))"
| "step (Esc k) K c =
     (if c \<in> set [CHR 0x22, CHR 0x5C, CHR ''/'', CHR ''b'', CHR ''f'', CHR ''n'', CHR ''r'',
                   CHR ''t'']
      then Some (Str k, K)
      else if c = CHR ''u'' then Some (Hex 4 k, K)
      else None)"
| "step (Hex n k) K c =
     (if is_hex c then Some (if n \<le> 1 then Str k else Hex (n - 1) k, K) else None)"
| "step (Lit l) K c =
     (case l of
        [] \<Rightarrow> None
      | x # xs \<Rightarrow> if c = x then Some (if xs = [] then After else Lit xs, K) else None)"
| "step Minus K c =
     (if c = CHR ''0'' then Some (Zero, K)
      else if is_digit c then Some (Digits, K)
      else None)"
| "step Zero K c =
     (if c = CHR ''.'' then Some (Frac0, K)
      else if c = CHR ''e'' \<or> c = CHR ''E'' then Some (Exp0, K)
      else if is_digit c then None
      else after_value K c)"
| "step Digits K c =
     (if is_digit c then Some (Digits, K)
      else if c = CHR ''.'' then Some (Frac0, K)
      else if c = CHR ''e'' \<or> c = CHR ''E'' then Some (Exp0, K)
      else after_value K c)"
| "step Frac0 K c = (if is_digit c then Some (Frac, K) else None)"
| "step Frac K c =
     (if is_digit c then Some (Frac, K)
      else if c = CHR ''e'' \<or> c = CHR ''E'' then Some (Exp0, K)
      else after_value K c)"
| "step Exp0 K c =
     (if c = CHR ''+'' \<or> c = CHR ''-'' then Some (ExpSign, K)
      else if is_digit c then Some (ExpDigits, K)
      else None)"
| "step ExpSign K c = (if is_digit c then Some (ExpDigits, K) else None)"
| "step ExpDigits K c = (if is_digit c then Some (ExpDigits, K) else after_value K c)"

fun run :: "mode \<Rightarrow> ctx list \<Rightarrow> string \<Rightarrow> bool" where
  "run m K [] = (K = [] \<and> m \<in> set [After, Zero, Digits, Frac, ExpDigits])"
| "run m K (c # cs) = (case step m K c of None \<Rightarrow> False | Some (m', K') \<Rightarrow> run m' K' cs)"

definition valid_json :: "string \<Rightarrow> bool" where
  "valid_json s = run Value [] s"

definition valid_json_object :: "string \<Rightarrow> bool" where
  "valid_json_object s = (valid_json s \<and> (case s of [] \<Rightarrow> False | c # cs \<Rightarrow> c = CHR ''{''))"

fun is_dict :: "json \<Rightarrow> bool" where
  "is_dict (JObject kvs) = True"
| "is_dict v = False"

text \<open>What follows a value inside a JSON text: nothing, a comma or a closing bracket.\<close>

definition ends_number :: "string \<Rightarrow> bool" where
  "ends_number rest = (case rest of [] \<Rightarrow> True | c # cs \<Rightarrow> c \<in> set '',]}'')"

text \<open>
  A fake environment for concrete runs of the setup script: every AWS call succeeds, and
  the feed answers \<open>answer\<close>.
\<close>

definition fake_feed :: "py_exn + http_response \<Rightarrow> aws" where
  "fake_feed answer =
     \<lparr>python = cpython,
      API_KEY = Some ''key'',
      NBA_ENDPOINT = Some ''https://feed.example/nba'',
      s3_create_bucket = (\<lambda>bucket config. None),
      glue_create_database = (\<lambda>name description. None),
      requests_get = (\<lambda>endpoint key. answer),
      s3_put_object = (\<lambda>bucket key body. None),
      glue_create_table = (\<lambda>database table. None),
      athena_start_query_execution = (\<lambda>query database output_location. None)\<rparr>"

section \<open>The polling loop\<close>

lemma polls_round_trips: "polls h (round_trips h n) = n"
  by (induction n) (simp_all add: polls_def round_trips_def)

lemma round_trips_Suc:
  "round_trips h (Suc n) = [GetQueryExecution h, Sleep 2] @ round_trips h n"
  by (simp add: round_trips_def)

lemma poll_loop_stops:
  assumes "\<forall>j<n. keeps_polling (get_query_execution sv h (polls h tr + j))"
    and "\<not> keeps_polling (get_query_execution sv h (polls h tr + n))"
    and "n < fuel"
  shows "poll_loop fuel sv h tr =
           (Some (get_query_execution sv h (polls h tr + n)),
            tr @ round_trips h n @ [GetQueryExecution h])"
  using assms
proof (induction n arbitrary: fuel tr)
  case 0
  then obtain f where f: "fuel = Suc f" by (cases fuel) auto
  from 0 show ?case
    by (auto simp: f keeps_polling_def polls_def round_trips_def split: sum.splits)
next
  case (Suc n)
  then obtain f where f: "fuel = Suc f" by (cases fuel) auto
  let ?tr = "tr @ [GetQueryExecution h, Sleep 2]"
  have p: "polls h ?tr = Suc (polls h tr)" by (simp add: polls_def)
  have first: "keeps_polling (get_query_execution sv h (polls h tr))"
    using Suc.prems(1) by (metis add.right_neutral zero_less_Suc)
  have "\<forall>j<n. keeps_polling (get_query_execution sv h (polls h ?tr + j))"
  proof (intro allI impI)
    fix j assume "j < n"
    then have "Suc j < Suc n" by simp
    with Suc.prems(1) have "keeps_polling (get_query_execution sv h (polls h tr + Suc j))"
      by blast
    then show "keeps_polling (get_query_execution sv h (polls h ?tr + j))"
      by (simp add: p)
  qed
  moreover have "\<not> keeps_polling (get_query_execution sv h (polls h ?tr + n))"
    using Suc.prems(2) by (simp add: p)
  moreover have "n < f" using Suc.prems(3) f by simp
  ultimately have "poll_loop f sv h ?tr =
      (Some (get_query_execution sv h (polls h ?tr + n)),
       ?tr @ round_trips h n @ [GetQueryExecution h])"
    by (rule Suc.IH)
  moreover have "poll_loop fuel sv h tr = poll_loop f sv h ?tr"
    using first by (auto simp: f keeps_polling_def polls_def split: sum.splits)
  ultimately show ?case by (simp add: p round_trips_Suc)
qed

lemma poll_loop_pending:
  assumes "\<forall>j<fuel. keeps_polling (get_query_execution sv h (polls h tr + j))"
  shows "poll_loop fuel sv h tr = (None, tr @ round_trips h fuel)"
  using assms
proof (induction fuel arbitrary: tr)
  case 0
  show ?case by (simp add: round_trips_def)
next
  case (Suc fuel)
  let ?tr = "tr @ [GetQueryExecution h, Sleep 2]"
  have p: "polls h ?tr = Suc (polls h tr)" by (simp add: polls_def)
  have first: "keeps_polling (get_query_execution sv h (polls h tr))"
    using Suc.prems by (metis add.right_neutral zero_less_Suc)
  have "\<forall>j<fuel. keeps_polling (get_query_execution sv h (polls h ?tr + j))"
  proof (intro allI impI)
    fix j assume "j < fuel"
    then have "Suc j < Suc fuel" by simp
    with Suc.prems have "keeps_polling (get_query_execution sv h (polls h tr + Suc j))"
      by blast
    then show "keeps_polling (get_query_execution sv h (polls h ?tr + j))"
      by (simp add: p)
  qed
  then have "poll_loop fuel sv h ?tr = (None, ?tr @ round_trips h fuel)"
    by (rule Suc.IH)
  moreover have "poll_loop (Suc fuel) sv h tr = poll_loop fuel sv h ?tr"
    using first by (auto simp: keeps_polling_def polls_def split: sum.splits)
  ultimately show ?case by (simp add: round_trips_Suc)
qed

lemma polls_append: "polls h (tr @ tr') = polls h tr + polls h tr'"
  by (simp add: polls_def)



lemma submissions_round_trips: "filter is_submission (round_trips h n) = []"
  by (induction n) (simp_all add: round_trips_def)

lemma poll_loop_extends:
  "\<exists>n. snd (poll_loop fuel sv h tr) = tr @ round_trips h n
      \<or> snd (poll_loop fuel sv h tr) = tr @ round_trips h n @ [GetQueryExecution h]"
proof (induction fuel arbitrary: tr)
  case 0
  have "snd (poll_loop 0 sv h tr) = tr @ round_trips h 0" by (simp add: round_trips_def)
  then show ?case by blast
next
  case (Suc fuel)
  show ?case
  proof (cases "keeps_polling (get_query_execution sv h (polls h tr))")
    case False
    then have "snd (poll_loop (Suc fuel) sv h tr) = tr @ round_trips h 0 @ [GetQueryExecution h]"
      by (auto simp: keeps_polling_def polls_def round_trips_def split: sum.splits)
    then show ?thesis by blast
  next
    case True
    let ?tr = "tr @ [GetQueryExecution h, Sleep 2]"
    from True have step: "poll_loop (Suc fuel) sv h tr = poll_loop fuel sv h ?tr"
      by (auto simp: keeps_polling_def polls_def split: sum.splits)
    from Suc.IH [of ?tr] obtain n where
      "snd (poll_loop fuel sv h ?tr) = ?tr @ round_trips h n
       \<or> snd (poll_loop fuel sv h ?tr) = ?tr @ round_trips h n @ [GetQueryExecution h]"
      by blast
    then have "snd (poll_loop (Suc fuel) sv h tr) = tr @ round_trips h (Suc n)
       \<or> snd (poll_loop (Suc fuel) sv h tr) = tr @ round_trips h (Suc n) @ [GetQueryExecution h]"
      by (simp add: step round_trips_Suc del: poll_loop.simps)
    then show ?thesis by blast
  qed
qed

lemma poll_loop_submissions:
  "filter is_submission (snd (poll_loop fuel sv h tr)) = filter is_submission tr"
  using poll_loop_extends [of fuel sv h tr]
  by (auto simp: submissions_round_trips)

lemma fetch_query_results_submissions:
  "filter is_submission (snd (fetch_query_results fuel sv h out tr)) = filter is_submission tr"
  using poll_loop_submissions [of fuel sv h tr]
  by (auto simp: fetch_query_results_def Let_def split: prod.splits option.splits sum.splits)

lemma visualize_data_submissions:
  "filter is_submission (snd (visualize_data sv p tr)) = filter is_submission tr"
  by (auto simp: visualize_data_def split: sum.splits option.splits)

lemma fetch_query_results_stops:
  assumes "\<forall>j<n. keeps_polling (get_query_execution sv h (polls h tr + j))"
    and "\<not> keeps_polling (get_query_execution sv h (polls h tr + n))"
    and "n < fuel"
  shows "fetch_query_results fuel sv h out tr =
           (case get_query_execution sv h (polls h tr + n) of
              Inl e \<Rightarrow> (Some (Inl e), tr @ round_trips h n @ [GetQueryExecution h])
            | Inr state \<Rightarrow>
                if state = ''SUCCEEDED''
                then (Some (Inr (out @ h @ ''.csv'')),
                      tr @ round_trips h n @
                      [GetQueryExecution h, Print ''Query succeeded!'',
                       Print (''Query results saved to: '' @ out @ h @ ''.csv'')])
                else (Some (Inl (Exception ''Query failed!'')),
                      tr @ round_trips h n @ [GetQueryExecution h]))"
  using poll_loop_stops [OF assms]
  by (simp add: fetch_query_results_def Let_def split: sum.splits)

lemma fetch_query_results_pending:
  assumes "\<forall>j<fuel. keeps_polling (get_query_execution sv h (polls h tr + j))"
  shows "fetch_query_results fuel sv h out tr = (None, tr @ round_trips h fuel)"
  using poll_loop_pending [OF assms]
  by (simp add: fetch_query_results_def)

lemma keeps_polling_RUNNING: "keeps_polling (Inr ''RUNNING'')"
  by (simp add: keeps_polling_def)

lemma keeps_polling_CANCELLED: "keeps_polling (Inr ''CANCELLED'')"
  by (simp add: keeps_polling_def)

lemma not_keeps_polling_SUCCEEDED: "\<not> keeps_polling (Inr ''SUCCEEDED'')"
  by (simp add: keeps_polling_def)

lemma not_keeps_polling_FAILED: "\<not> keeps_polling (Inr ''FAILED'')"
  by (simp add: keeps_polling_def)

section \<open>Submission happens once\<close>

lemma visualization_main_submissions:
  "filter is_submission (snd (visualization_main fuel sv []))
     = [StartQueryExecution sql_query database_name query_output_location]"
proof -
  let ?tr1 = "[Print ''Running Athena query...'',
               StartQueryExecution sql_query database_name query_output_location]"
  have q: "snd (query_athena sv database_name sql_query query_output_location
                  [Print ''Running Athena query...'']) = ?tr1"
    by (simp add: query_athena_def)
  show ?thesis
  proof (cases "start_query_execution sv sql_query database_name query_output_location")
    case (Inl e)
    then show ?thesis by (simp add: visualization_main_def query_athena_def)
  next
    case (Inr h)
    let ?f = "fetch_query_results fuel sv h query_output_location
                (?tr1 @ [Print ''Fetching query results...''])"
    have f: "filter is_submission (snd ?f)
             = [StartQueryExecution sql_query database_name query_output_location]"
      by (simp add: fetch_query_results_submissions)
    show ?thesis
    proof (cases ?f)
      case (Pair r tr2)
      with f have tr2: "filter is_submission tr2
             = [StartQueryExecution sql_query database_name query_output_location]" by simp
      have v: "\<And>p. filter is_submission
                   (snd (visualize_data sv p (tr2 @ [Print ''Visualizing data...''])))
                 = [StartQueryExecution sql_query database_name query_output_location]"
        by (simp add: visualize_data_submissions tr2)
      show ?thesis
      proof (cases r)
        case None
        with Inr Pair tr2 show ?thesis
          by (simp add: visualization_main_def query_athena_def)
      next
        case (Some res)
        show ?thesis
        proof (cases res)
          case (Inl e)
          with Some Inr Pair tr2 show ?thesis
            by (simp add: visualization_main_def query_athena_def)
        next
          case (Inr path)
          with Some \<open>start_query_execution sv sql_query database_name query_output_location = Inr h\<close>
            Pair v [of path] show ?thesis
            by (simp add: visualization_main_def query_athena_def split_beta)
        qed
      qed
    qed
  qed
qed

text \<open>
  Claim C8. The polling loop repeats only the status read, never the submission: whatever
  the services answer and however long the loop runs, \<^verbatim>\<open>fetch_query_results\<close> adds no
  \<^verbatim>\<open>start_query_execution\<close> call to the log (also when a status read raises), and a run
  of the visualization script submits exactly one query, the one \<^verbatim>\<open>main\<close> starts.
\<close>

theorem polling_never_resubmits:
  "filter is_submission (snd (fetch_query_results fuel sv h out tr)) = filter is_submission tr
   \<and> filter is_submission (snd (visualization_main fuel sv []))
       = [StartQueryExecution sql_query database_name query_output_location]"
  by (simp add: fetch_query_results_submissions visualization_main_submissions)

section \<open>Waiting for a query that succeeds\<close>

text \<open>
  Claim C3. For every \<open>N\<close>, when the engine answers RUNNING to the first \<open>N\<close> status
  reads of a handle and SUCCEEDED to the next one, \<^verbatim>\<open>fetch_query_results\<close> (given fuel
  for more than \<open>N\<close> iterations) returns the result path built from that handle, having
  issued exactly \<open>N + 1\<close> status reads with a sleep of 2 seconds after each of the first
  \<open>N\<close>.
\<close>

theorem running_then_succeeded:
  assumes "\<forall>k<N. get_query_execution sv h (polls h tr + k) = Inr ''RUNNING''"
    and "get_query_execution sv h (polls h tr + N) = Inr ''SUCCEEDED''"
    and "N < fuel"
  shows "fetch_query_results fuel sv h out tr =
           (Some (Inr (out @ h @ ''.csv'')),
            tr @ round_trips h N @
            [GetQueryExecution h, Print ''Query succeeded!'',
             Print (''Query results saved to: '' @ out @ h @ ''.csv'')])
         \<and> polls h (snd (fetch_query_results fuel sv h out tr)) = polls h tr + (N + 1)"
proof -
  have a: "\<forall>j<N. keeps_polling (get_query_execution sv h (polls h tr + j))"
    using assms(1) by (simp add: keeps_polling_RUNNING)
  have b: "\<not> keeps_polling (get_query_execution sv h (polls h tr + N))"
    using assms(2) by (simp add: not_keeps_polling_SUCCEEDED)
  have r: "fetch_query_results fuel sv h out tr =
           (Some (Inr (out @ h @ ''.csv'')),
            tr @ round_trips h N @
            [GetQueryExecution h, Print ''Query succeeded!'',
             Print (''Query results saved to: '' @ out @ h @ ''.csv'')])"
    using fetch_query_results_stops [OF a b assms(3), of out] assms(2) by simp
  have "polls h (tr @ round_trips h N @
            [GetQueryExecution h, Print ''Query succeeded!'',
             Print (''Query results saved to: '' @ out @ h @ ''.csv'')]) = polls h tr + (N + 1)"
    by (simp add: polls_append polls_round_trips) (simp add: polls_def)
  with r show ?thesis by simp
qed

theorem running_then_succeeded_witness:
  "fetch_query_results 3 (fake_engine 2 ''SUCCEEDED'') ''q-0001'' ''s3://o/'' [] =
     (Some (Inr ''s3://o/q-0001.csv''),
      [GetQueryExecution ''q-0001'', Sleep 2, GetQueryExecution ''q-0001'', Sleep 2,
       GetQueryExecution ''q-0001'', Print ''Query succeeded!'',
       Print ''Query results saved to: s3://o/q-0001.csv''])
   \<and> polls ''q-0001''
        (snd (fetch_query_results 3 (fake_engine 2 ''SUCCEEDED'') ''q-0001'' ''s3://o/'' [])) = 3"
proof -
  have a: "\<forall>k<2. get_query_execution (fake_engine 2 ''SUCCEEDED'') ''q-0001''
                     (polls ''q-0001'' [] + k) = Inr ''RUNNING''"
    by (simp add: fake_engine_def polls_def)
  have b: "get_query_execution (fake_engine 2 ''SUCCEEDED'') ''q-0001''
             (polls ''q-0001'' [] + 2) = Inr ''SUCCEEDED''"
    by (simp add: fake_engine_def polls_def)
  have c: "(2::nat) < 3" by simp
  have rt: "round_trips ''q-0001'' 2 =
     [GetQueryExecution ''q-0001'', Sleep 2, GetQueryExecution ''q-0001'', Sleep 2]"
    by (simp add: round_trips_def numeral_2_eq_2)
  show ?thesis
    using running_then_succeeded [OF a b c, of "''s3://o/''"]
    by (simp add: rt polls_def)
qed

section \<open>The result path\<close>

lemma fetch_query_results_path:
  "fst (fetch_query_results fuel sv h out tr) = Some (Inr uri)
   \<longleftrightarrow> fst (poll_loop fuel sv h tr) = Some (Inr ''SUCCEEDED'') \<and> uri = out @ h @ ''.csv''"
  by (auto simp: fetch_query_results_def Let_def split: prod.splits option.splits sum.splits)

text \<open>
  Claim C4. The path \<^verbatim>\<open>fetch_query_results\<close> returns is exactly
  \<^verbatim>\<open>output_location + query_execution_id + ".csv"\<close>, and it returns one precisely when
  the last status read gave SUCCEEDED; so two calls in a row on a handle whose status
  is already SUCCEEDED, with the same output location, return the same path.
\<close>

theorem result_path_deterministic:
  "(fst (fetch_query_results fuel sv h out tr) = Some (Inr uri)
    \<longleftrightarrow> fst (poll_loop fuel sv h tr) = Some (Inr ''SUCCEEDED'') \<and> uri = out @ h @ ''.csv'')
   \<and> ((\<forall>k\<ge>polls h tr. get_query_execution sv h k = Inr ''SUCCEEDED'') \<longrightarrow>
        fst (fetch_query_results (Suc f1) sv h out tr) = Some (Inr (out @ h @ ''.csv''))
        \<and> fst (fetch_query_results (Suc f2) sv h out
                 (snd (fetch_query_results (Suc f1) sv h out tr)))
            = Some (Inr (out @ h @ ''.csv'')))"
proof -
  have path: "fst (fetch_query_results fuel sv h out tr) = Some (Inr uri)
    \<longleftrightarrow> fst (poll_loop fuel sv h tr) = Some (Inr ''SUCCEEDED'') \<and> uri = out @ h @ ''.csv''"
    by (rule fetch_query_results_path)
  have twice: "fst (fetch_query_results (Suc f1) sv h out tr) = Some (Inr (out @ h @ ''.csv''))
        \<and> fst (fetch_query_results (Suc f2) sv h out
                 (snd (fetch_query_results (Suc f1) sv h out tr)))
            = Some (Inr (out @ h @ ''.csv''))"
    if settled: "\<forall>k\<ge>polls h tr. get_query_execution sv h k = Inr ''SUCCEEDED''"
  proof -
    have now: "get_query_execution sv h (polls h tr + 0) = Inr ''SUCCEEDED''"
      using settled by simp
    have first: "fetch_query_results (Suc f1) sv h out tr =
        (Some (Inr (out @ h @ ''.csv'')),
         tr @ round_trips h 0 @
         [GetQueryExecution h, Print ''Query succeeded!'',
          Print (''Query results saved to: '' @ out @ h @ ''.csv'')])"
      using fetch_query_results_stops [of 0 sv h tr "Suc f1" out] now
      by (simp add: not_keeps_polling_SUCCEEDED)
    let ?tr1 = "snd (fetch_query_results (Suc f1) sv h out tr)"
    have "polls h ?tr1 = Suc (polls h tr)"
      by (simp add: first polls_append round_trips_def) (simp add: polls_def)
    then have later: "get_query_execution sv h (polls h ?tr1 + 0) = Inr ''SUCCEEDED''"
      using settled by simp
    have "fetch_query_results (Suc f2) sv h out ?tr1 =
        (Some (Inr (out @ h @ ''.csv'')),
         ?tr1 @ round_trips h 0 @
         [GetQueryExecution h, Print ''Query succeeded!'',
          Print (''Query results saved to: '' @ out @ h @ ''.csv'')])"
      using fetch_query_results_stops [of 0 sv h ?tr1 "Suc f2" out] later
      by (simp add: not_keeps_polling_SUCCEEDED)
    then show ?thesis
      by (simp add: first)
  qed
  from path twice show ?thesis by blast
qed

theorem result_path_deterministic_witness:
  "fst (fetch_query_results 1 (fake_engine 0 ''SUCCEEDED'') ''q-0001'' ''s3://o/'' [])
     = Some (Inr ''s3://o/q-0001.csv'')
   \<and> fst (fetch_query_results 1 (fake_engine 0 ''SUCCEEDED'') ''q-0001'' ''s3://o/''
            (snd (fetch_query_results 1 (fake_engine 0 ''SUCCEEDED'') ''q-0001'' ''s3://o/'' [])))
     = Some (Inr ''s3://o/q-0001.csv'')"
proof -
  have a: "\<forall>k\<ge>polls ''q-0001'' [].
             get_query_execution (fake_engine 0 ''SUCCEEDED'') ''q-0001'' k = Inr ''SUCCEEDED''"
    by (simp add: fake_engine_def)
  show ?thesis
    using result_path_deterministic
      [of 1 "fake_engine 0 ''SUCCEEDED''" "''q-0001''" "''s3://o/''" "[]" "''s3://o/q-0001.csv''" 0 0]
      a
    by simp
qed

section \<open>Queries that fail or are cancelled\<close>

text \<open>
  Claim C1. The loop leaves only on SUCCEEDED and FAILED. A query that was cancelled
  answers CANCELLED to every status read from then on, and the loop never leaves: for
  every amount of fuel it is still polling, having slept after each read.
\<close>

theorem cancelled_query_polls_forever:
  "fetch_query_results fuel (fake_engine N ''CANCELLED'') h out [] = (None, round_trips h fuel)"
proof -
  have "\<forall>j<fuel. keeps_polling
          (get_query_execution (fake_engine N ''CANCELLED'') h (polls h [] + j))"
    by (simp add: fake_engine_def keeps_polling_RUNNING keeps_polling_CANCELLED)
  then have "fetch_query_results fuel (fake_engine N ''CANCELLED'') h out []
             = (None, [] @ round_trips h fuel)"
    by (rule fetch_query_results_pending)
  then show ?thesis by simp
qed

text \<open>
  Claim C2, amended. When the first status that ends the loop is FAILED,
  \<^verbatim>\<open>fetch_query_results\<close> raises the plain \<^verbatim>\<open>Exception("Query failed!")\<close>, which names
  neither the status nor the handle, and the run has done nothing but status reads and
  sleeps: no result path is built or printed, and the visualization script stops before
  \<^verbatim>\<open>visualize_data\<close> reads anything.
\<close>

theorem failed_query_raises:
  assumes "\<forall>j<n. keeps_polling (get_query_execution sv h (polls h tr + j))"
    and "get_query_execution sv h (polls h tr + n) = Inr ''FAILED''"
    and "n < fuel"
  shows "fetch_query_results fuel sv h out tr =
           (Some (Inl (Exception ''Query failed!'')),
            tr @ round_trips h n @ [GetQueryExecution h])
         \<and> (tr = [] \<and> start_query_execution sv sql_query database_name query_output_location
                        = Inr h \<longrightarrow>
              visualization_main fuel sv [] =
                (Some (Inl (Exception ''Query failed!'')),
                 [Print ''Running Athena query...'',
                  StartQueryExecution sql_query database_name query_output_location,
                  Print ''Fetching query results...'']
                 @ round_trips h n @ [GetQueryExecution h]))"
proof -
  have b: "\<not> keeps_polling (get_query_execution sv h (polls h tr + n))"
    using assms(2) by (simp add: not_keeps_polling_FAILED)
  have one: "fetch_query_results fuel sv h out tr =
           (Some (Inl (Exception ''Query failed!'')),
            tr @ round_trips h n @ [GetQueryExecution h])"
    using fetch_query_results_stops [OF assms(1) b assms(3), of out] assms(2) by simp
  have two: "visualization_main fuel sv [] =
                (Some (Inl (Exception ''Query failed!'')),
                 [Print ''Running Athena query...'',
                  StartQueryExecution sql_query database_name query_output_location,
                  Print ''Fetching query results...'']
                 @ round_trips h n @ [GetQueryExecution h])"
    if "tr = []"
      and sub: "start_query_execution sv sql_query database_name query_output_location = Inr h"
  proof -
    let ?tr = "[Print ''Running Athena query...'',
                StartQueryExecution sql_query database_name query_output_location,
                Print ''Fetching query results...'']"
    have p: "polls h ?tr = polls h tr" using \<open>tr = []\<close> by (simp add: polls_def)
    have a': "\<forall>j<n. keeps_polling (get_query_execution sv h (polls h ?tr + j))"
      using assms(1) by (simp add: p)
    have b': "\<not> keeps_polling (get_query_execution sv h (polls h ?tr + n))"
      using b by (simp add: p)
    have f: "get_query_execution sv h (polls h ?tr + n) = Inr ''FAILED''"
      using assms(2) by (simp add: p)
    have "fetch_query_results fuel sv h query_output_location ?tr =
           (Some (Inl (Exception ''Query failed!'')),
            ?tr @ round_trips h n @ [GetQueryExecution h])"
      using fetch_query_results_stops [OF a' b' assms(3), of query_output_location] f
      by simp
    then show ?thesis
      using sub by (simp add: visualization_main_def query_athena_def)
  qed
  from one two show ?thesis by blast
qed

theorem failed_query_raises_witness:
  "fetch_query_results 2 (fake_engine 1 ''FAILED'') ''q-0001'' ''s3://o/'' [] =
     (Some (Inl (Exception ''Query failed!'')),
      [GetQueryExecution ''q-0001'', Sleep 2, GetQueryExecution ''q-0001''])
   \<and> visualization_main 2 (fake_engine 1 ''FAILED'') [] =
       (Some (Inl (Exception ''Query failed!'')),
        [Print ''Running Athena query...'',
         StartQueryExecution sql_query database_name query_output_location,
         Print ''Fetching query results...'',
         GetQueryExecution ''q-0001'', Sleep 2, GetQueryExecution ''q-0001''])"
proof -
  have a: "\<forall>j<1. keeps_polling (get_query_execution (fake_engine 1 ''FAILED'') ''q-0001''
                                    (polls ''q-0001'' [] + j))"
    by (simp add: fake_engine_def polls_def keeps_polling_def)
  have b: "get_query_execution (fake_engine 1 ''FAILED'') ''q-0001'' (polls ''q-0001'' [] + 1)
           = Inr ''FAILED''"
    by (simp add: fake_engine_def polls_def)
  have c: "(1::nat) < 2" by simp
  have s: "start_query_execution (fake_engine 1 ''FAILED'') sql_query database_name
             query_output_location = Inr ''q-0001''"
    by (simp add: fake_engine_def sql_query_def)
  show ?thesis
    using failed_query_raises [OF a b c, of "''s3://o/''"] s
    by (simp add: round_trips_def)
qed

theorem failed_query_counterexample:
  "fetch_query_results 1 (fake_engine 0 ''FAILED'') ''q-0001'' ''s3://o/'' []
     = (Some (Inl (Exception ''Query failed!'')), [GetQueryExecution ''q-0001''])
   \<and> fetch_query_results 1 (fake_engine 0 ''FAILED'') ''q-0002'' ''s3://o/'' []
     = (Some (Inl (Exception ''Query failed!'')), [GetQueryExecution ''q-0002''])
   \<and> fetch_query_results 3 (fake_engine 0 ''CANCELLED'') ''q-0001'' ''s3://o/'' []
     = (None, [GetQueryExecution ''q-0001'', Sleep 2, GetQueryExecution ''q-0001'', Sleep 2,
               GetQueryExecution ''q-0001'', Sleep 2])"
  by (simp add: fetch_query_results_def fake_engine_def eval_nat_numeral)

section \<open>No timeout\<close>






section \<open>Submitting a query\<close>

text \<open>
  Claim C6, amended. \<^verbatim>\<open>query_athena\<close> checks nothing: whatever the SQL text, the empty
  one included, it calls \<^verbatim>\<open>start_query_execution\<close> once with that text and returns the
  handle the client gives, or lets the client's exception through. The script itself only
  ever submits its own fixed query, which is not empty.
\<close>

theorem query_athena_forwards_any_query:
  "fst (query_athena sv database query output_location tr)
     = start_query_execution sv query database output_location
   \<and> filter is_submission (snd (query_athena sv database query output_location tr))
     = filter is_submission tr @ [StartQueryExecution query database output_location]
   \<and> filter is_submission (snd (visualization_main fuel sv []))
     = [StartQueryExecution sql_query database_name query_output_location]
   \<and> sql_query \<noteq> []"
  by (simp add: query_athena_def visualization_main_submissions sql_query_def)

theorem empty_query_counterexample:
  "query_athena (fake_engine 0 ''SUCCEEDED'') database_name [] query_output_location []
     = (Inl (LibraryError
               ''Invalid length for parameter QueryString, value: 0, valid min length: 1''),
        [StartQueryExecution [] database_name query_output_location])"
  by (simp add: query_athena_def fake_engine_def)

section \<open>Fetching the feed\<close>

lemma raise_for_status_iff:
  "raise_for_status response \<noteq> None
   \<longleftrightarrow> 400 \<le> status_code response \<and> status_code response < 600"
  by (auto simp: raise_for_status_def)

text \<open>
  Claim C9, amended. On every failure of the feed (the request raises, the status is
  4xx or 5xx as for a refused key, or the body is not JSON) \<^verbatim>\<open>retrieve_nba_data\<close>
  prints the error and returns the empty list; no exception leaves the function. Nothing
  else reaches the caller: the value returned is the one a feed that successfully
  delivers an empty array gives.
\<close>

theorem retrieve_nba_data_failure:
  "(requests_get env (NBA_ENDPOINT env) (API_KEY env) = Inl error \<longrightarrow>
      retrieve_nba_data env tr =
        (JArray [], tr @ [HttpGet (NBA_ENDPOINT env) (API_KEY env),
                          Print (''Error fetching NBA data: '' @ exn_str error)]))
   \<and> (requests_get env (NBA_ENDPOINT env) (API_KEY env) = Inr response
       \<and> raise_for_status response = Some error \<longrightarrow>
      retrieve_nba_data env tr =
        (JArray [], tr @ [HttpGet (NBA_ENDPOINT env) (API_KEY env),
                          Print (''Error fetching NBA data: '' @ exn_str error)]))
   \<and> (requests_get env (NBA_ENDPOINT env) (API_KEY env) = Inr response
       \<and> raise_for_status response = None \<and> json_body response = Inl error \<longrightarrow>
      retrieve_nba_data env tr =
        (JArray [], tr @ [HttpGet (NBA_ENDPOINT env) (API_KEY env),
                          Print ''Successfully retrieved NBA data.'',
                          Print (''Error fetching NBA data: '' @ exn_str error)]))
   \<and> (requests_get env (NBA_ENDPOINT env) (API_KEY env) = Inr response
       \<and> raise_for_status response = None \<and> json_body response = Inr (JArray []) \<longrightarrow>
      fst (retrieve_nba_data env tr) = JArray [])
   \<and> (raise_for_status response \<noteq> None
       \<longleftrightarrow> 400 \<le> status_code response \<and> status_code response < 600)"
  using raise_for_status_iff [of response]
  by (auto simp: retrieve_nba_data_def)

theorem retrieve_nba_data_failure_witness:
  "retrieve_nba_data (fake_feed (Inl (LibraryError ''Connection refused''))) [] =
     (JArray [], [HttpGet (Some ''https://feed.example/nba'') (Some ''key''),
                  Print ''Error fetching NBA data: Connection refused''])
   \<and> retrieve_nba_data
        (fake_feed (Inr \<lparr>status_code = 401, reason = ''Unauthorized'',
                          url = ''https://feed.example/nba'',
                          json_body = Inl (LibraryError ''Expecting value'')\<rparr>)) [] =
     (JArray [], [HttpGet (Some ''https://feed.example/nba'') (Some ''key''),
                  Print (''Error fetching NBA data: '' @
                         ''401 Client Error: Unauthorized for url: https://feed.example/nba'')])"
proof -
  let ?r = "\<lparr>status_code = 401, reason = ''Unauthorized'',
             url = ''https://feed.example/nba'',
             json_body = Inl (LibraryError ''Expecting value'')\<rparr>"
  have s: "str_nat 401 = ''401''"
    by code_simp
  have e: "raise_for_status ?r = Some (LibraryError
             ''401 Client Error: Unauthorized for url: https://feed.example/nba'')"
    by (simp add: raise_for_status_def s)
  show ?thesis
    using retrieve_nba_data_failure
            [where env = "fake_feed (Inl (LibraryError ''Connection refused''))"
               and error = "LibraryError ''Connection refused''" and tr = "[]"]
          retrieve_nba_data_failure
            [where env = "fake_feed (Inr ?r)" and tr = "[]" and response = ?r
               and error = "LibraryError
                 ''401 Client Error: Unauthorized for url: https://feed.example/nba''"]
          e
    by (simp add: fake_feed_def)
qed

theorem fetch_error_counterexample:
  "retrieve_nba_data
     (fake_feed (Inr \<lparr>status_code = 401, reason = ''Unauthorized'',
                       url = ''https://feed.example/nba'',
                       json_body = Inl (LibraryError ''Expecting value'')\<rparr>)) [] =
     (JArray [], [HttpGet (Some ''https://feed.example/nba'') (Some ''key''),
                  Print (''Error fetching NBA data: '' @
                         ''401 Client Error: Unauthorized for url: https://feed.example/nba'')])
   \<and> retrieve_nba_data
        (fake_feed (Inr \<lparr>status_code = 200, reason = ''OK'',
                          url = ''https://feed.example/nba'',
                          json_body = Inr (JArray [])\<rparr>)) [] =
       (JArray [], [HttpGet (Some ''https://feed.example/nba'') (Some ''key''),
                    Print ''Successfully retrieved NBA data.''])"
proof -
  have s: "str_nat 401 = ''401''"
    by code_simp
  show ?thesis
    by (simp add: retrieve_nba_data_def fake_feed_def raise_for_status_def s)
qed

section \<open>The setup pipeline with no data\<close>

lemma retrieve_nba_data_value:
  "fst (retrieve_nba_data env tr) = fst (retrieve_nba_data env tr')"
  by (simp add: retrieve_nba_data_def Let_def split: sum.splits option.splits)

lemma initialize_s3_bucket_log:
  "filter is_put_object (initialize_s3_bucket env tr) = filter is_put_object tr"
  "Print ''Formatting data to line-delimited JSON.'' \<in> set (initialize_s3_bucket env tr)
   \<longleftrightarrow> Print ''Formatting data to line-delimited JSON.'' \<in> set tr"
  "x \<in> set tr \<Longrightarrow> x \<in> set (initialize_s3_bucket env tr)"
  by (simp_all add: initialize_s3_bucket_def Let_def split: option.splits)

lemma setup_glue_database_log:
  "filter is_put_object (setup_glue_database env tr) = filter is_put_object tr"
  "Print ''Formatting data to line-delimited JSON.'' \<in> set (setup_glue_database env tr)
   \<longleftrightarrow> Print ''Formatting data to line-delimited JSON.'' \<in> set tr"
  "x \<in> set tr \<Longrightarrow> x \<in> set (setup_glue_database env tr)"
  by (simp_all add: setup_glue_database_def Let_def split: option.splits)

lemma retrieve_nba_data_log:
  "filter is_put_object (snd (retrieve_nba_data env tr)) = filter is_put_object tr"
  "Print ''Formatting data to line-delimited JSON.'' \<in> set (snd (retrieve_nba_data env tr))
   \<longleftrightarrow> Print ''Formatting data to line-delimited JSON.'' \<in> set tr"
  "x \<in> set tr \<Longrightarrow> x \<in> set (snd (retrieve_nba_data env tr))"
  by (simp_all add: retrieve_nba_data_def Let_def split: sum.splits option.splits)

lemma define_glue_table_log:
  "filter is_put_object (define_glue_table env tr) = filter is_put_object tr"
  "Print ''Formatting data to line-delimited JSON.'' \<in> set (define_glue_table env tr)
   \<longleftrightarrow> Print ''Formatting data to line-delimited JSON.'' \<in> set tr"
  "x \<in> set tr \<Longrightarrow> x \<in> set (define_glue_table env tr)"
  by (simp_all add: define_glue_table_def Let_def split: option.splits)

lemma configure_athena_output_log:
  "filter is_put_object (configure_athena_output env tr) = filter is_put_object tr"
  "Print ''Formatting data to line-delimited JSON.'' \<in> set (configure_athena_output env tr)
   \<longleftrightarrow> Print ''Formatting data to line-delimited JSON.'' \<in> set tr"
  "x \<in> set tr \<Longrightarrow> x \<in> set (configure_athena_output env tr)"
  by (simp_all add: configure_athena_output_def Let_def split: option.splits)

lemma define_glue_table_event:
  "CreateTable GLUE_DATABASE nba_players \<in> set (define_glue_table env tr)"
  by (simp add: define_glue_table_def Let_def split: option.splits)

lemma configure_athena_output_event:
  "StartQueryExecution ''CREATE DATABASE IF NOT EXISTS nba_analytics''
     GLUE_DATABASE ATHENA_OUTPUT \<in> set (configure_athena_output env tr)"
  by (simp add: configure_athena_output_def Let_def split: option.splits)

text \<open>
  Claim C10. When \<^verbatim>\<open>retrieve_nba_data\<close> returns a falsy value (the empty list it gives on
  failure, or an empty answer of the feed), \<^verbatim>\<open>main\<close> neither formats nor uploads: no
  \<^verbatim>\<open>put_object\<close> call is made. It still calls \<^verbatim>\<open>create_table\<close> and Athena's
  \<^verbatim>\<open>start_query_execution\<close>, prints that the setup is completed and returns without
  raising.
\<close>

theorem setup_main_without_data:
  assumes "\<not> truthy (fst (retrieve_nba_data env tr0))"
  shows "fst (setup_main env []) = Inr ()
         \<and> filter is_put_object (snd (setup_main env [])) = []
         \<and> Print ''Formatting data to line-delimited JSON.'' \<notin> set (snd (setup_main env []))
         \<and> CreateTable GLUE_DATABASE nba_players \<in> set (snd (setup_main env []))
         \<and> StartQueryExecution ''CREATE DATABASE IF NOT EXISTS nba_analytics''
              GLUE_DATABASE ATHENA_OUTPUT \<in> set (snd (setup_main env []))
         \<and> last (snd (setup_main env [])) = Print ''NBA data lake setup completed.''"
proof -
  define t1 where "t1 = initialize_s3_bucket env [Print ''Starting NBA data lake setup...'']"
  define t2 where "t2 = setup_glue_database env (t1 @ [Sleep 5])"
  define t3 where "t3 = snd (retrieve_nba_data env t2)"
  define t4 where "t4 = define_glue_table env t3"
  define t5 where "t5 = configure_athena_output env t4"
  have falsy: "\<not> truthy (fst (retrieve_nba_data env t2))"
    using assms retrieve_nba_data_value [of env t2 tr0] by simp
  have run: "setup_main env [] = (Inr (), t5 @ [Print ''NBA data lake setup completed.''])"
    using falsy
    by (simp add: setup_main_def Let_def split_beta t1_def t2_def t3_def t4_def t5_def)
  have put: "filter is_put_object t5 = []"
    by (simp add: t5_def t4_def t3_def t2_def t1_def configure_athena_output_log(1)
        define_glue_table_log(1) retrieve_nba_data_log(1) setup_glue_database_log(1)
        initialize_s3_bucket_log(1))
  have fmt: "Print ''Formatting data to line-delimited JSON.'' \<notin> set t5"
    by (simp add: t5_def t4_def t3_def t2_def t1_def configure_athena_output_log(2)
        define_glue_table_log(2) retrieve_nba_data_log(2) setup_glue_database_log(2)
        initialize_s3_bucket_log(2))
  have table: "CreateTable GLUE_DATABASE nba_players \<in> set t5"
    unfolding t5_def t4_def
    by (rule configure_athena_output_log(3)) (rule define_glue_table_event)
  have query: "StartQueryExecution ''CREATE DATABASE IF NOT EXISTS nba_analytics''
                 GLUE_DATABASE ATHENA_OUTPUT \<in> set t5"
    unfolding t5_def by (rule configure_athena_output_event)
  show ?thesis
    using put fmt table query by (simp add: run)
qed

theorem setup_main_without_data_witness:
  "fst (setup_main (fake_feed (Inl (LibraryError ''Connection refused''))) []) = Inr ()
   \<and> filter is_put_object
        (snd (setup_main (fake_feed (Inl (LibraryError ''Connection refused''))) [])) = []
   \<and> CreateTable GLUE_DATABASE nba_players
        \<in> set (snd (setup_main (fake_feed (Inl (LibraryError ''Connection refused''))) []))
   \<and> StartQueryExecution ''CREATE DATABASE IF NOT EXISTS nba_analytics''
        GLUE_DATABASE ATHENA_OUTPUT
        \<in> set (snd (setup_main (fake_feed (Inl (LibraryError ''Connection refused''))) []))"
proof -
  have "\<not> truthy (fst (retrieve_nba_data
                          (fake_feed (Inl (LibraryError ''Connection refused''))) []))"
    by (simp add: retrieve_nba_data_def fake_feed_def)
  then show ?thesis
    using setup_main_without_data
            [of "fake_feed (Inl (LibraryError ''Connection refused''))" "[]"]
    by simp
qed

section \<open>Line-delimited JSON\<close>

lemma split_lines_no_newline: "CHR 0x0A \<notin> set x \<Longrightarrow> split_lines x = [x]"
  by (induction x) auto

lemma split_lines_append:
  "CHR 0x0A \<notin> set x \<Longrightarrow> split_lines (x @ CHR 0x0A # s) = x # split_lines s"
  by (induction x) auto

lemma split_lines_join:
  "xs \<noteq> [] \<Longrightarrow> \<forall>x\<in>set xs. CHR 0x0A \<notin> set x \<Longrightarrow> split_lines (join [CHR 0x0A] xs) = xs"
proof (induction "[CHR 0x0A]" xs rule: join.induct)
  case 1
  then show ?case by simp
next
  case (2 x)
  then show ?case by (simp add: split_lines_no_newline)
next
  case (3 x y ys)
  then show ?case by (simp add: split_lines_append)
qed

lemma set_join: "set (join sep xs) \<subseteq> set sep \<union> (\<Union>x\<in>set xs. set x)"
  by (induction sep xs rule: join.induct) auto

lemma join_no_newline:
  assumes "CHR 0x0A \<notin> set sep" and "\<forall>x\<in>set xs. CHR 0x0A \<notin> set x"
  shows "CHR 0x0A \<notin> set (join sep xs)"
  using set_join [of sep xs] assms by blast

subsection \<open>The encoder and the text it writes\<close>

lemma encode_text:
  "encode py d v = Inr t \<Longrightarrow> t = json_text v"
  "encode_items py d xs = Inr ts \<Longrightarrow> ts = map json_text xs"
  "encode_members py d kvs = Inr ts \<Longrightarrow>
     ts = map (\<lambda>kv. encode_basestring_ascii (fst kv) @ '': '' @ json_text (snd kv)) kvs"
proof (induction py d v and py d xs and py d kvs
       arbitrary: t and ts and ts rule: encode_encode_items_encode_members.induct)
  case (3 py depth n)
  then show ?case by (auto simp: int_repr_def split: if_splits)
next
  case (6 py depth xs)
  then show ?case by (auto split: if_splits sum.splits)
next
  case (7 py depth kvs)
  then show ?case by (auto split: if_splits sum.splits)
next
  case (9 py depth x xs)
  then show ?case by (auto split: sum.splits)
next
  case (11 py depth k v kvs)
  then show ?case by (auto split: sum.splits)
qed auto

lemma encode_fits:
  "fits py d v \<Longrightarrow> encode py d v = Inr (json_text v)"
  "\<forall>x\<in>set xs. fits py d x \<Longrightarrow> encode_items py d xs = Inr (map json_text xs)"
  "\<forall>kv\<in>set kvs. fits py d (snd kv) \<Longrightarrow>
     encode_members py d kvs
     = Inr (map (\<lambda>kv. encode_basestring_ascii (fst kv) @ '': '' @ json_text (snd kv)) kvs)"
proof (induction py d v and py d xs and py d kvs
       rule: encode_encode_items_encode_members.induct)
  case (3 py depth n)
  then show ?case by (simp add: int_repr_def)
qed auto

lemma encode_raises:
  "encode py d v = Inl e \<Longrightarrow> \<not> fits py d v"
  "encode_items py d xs = Inl e \<Longrightarrow> \<not> (\<forall>x\<in>set xs. fits py d x)"
  "encode_members py d kvs = Inl e \<Longrightarrow> \<not> (\<forall>kv\<in>set kvs. fits py d (snd kv))"
  using encode_fits(1) [of py d v] encode_fits(2) [of xs py d] encode_fits(3) [of kvs py d]
  by auto

subsection \<open>No newline inside a text\<close>

lemma digit_char_in: "digit_char d \<in> set ''0123456789abcdef''"
  unfolding digit_char_def by (rule nth_mem) simp

lemma digit_char_not_newline: "digit_char d \<noteq> CHR 0x0A" "CHR 0x0A \<noteq> digit_char d"
  using digit_char_in [of d] by auto

lemma str_nat_no_newline: "CHR 0x0A \<notin> set (str_nat n)"
proof (induction n rule: str_nat.induct)
  case (1 n)
  then show ?case
    by (subst str_nat.simps) (simp add: digit_char_not_newline)
qed

lemma str_nat_not_Nil: "str_nat n \<noteq> []"
  by (subst str_nat.simps) simp

lemma str_int_no_newline: "CHR 0x0A \<notin> set (str_int i)"
  by (simp add: str_int_def str_nat_no_newline)

lemma float_repr_digits_no_newline: "CHR 0x0A \<notin> set (float_repr_digits m decpt)"
proof -
  have d: "CHR 0x0A \<notin> set (str_nat m)" by (rule str_nat_no_newline)
  have "CHR 0x0A \<notin> set (take k (str_nat m))" "CHR 0x0A \<notin> set (drop k (str_nat m))" for k
    using d by (auto dest: in_set_takeD in_set_dropD)
  moreover have "hd (str_nat m) \<noteq> CHR 0x0A"
    using d str_nat_not_Nil [of m] by (metis hd_in_set)
  moreover have "CHR 0x0A \<notin> set (tl (str_nat m))"
    using d by (metis list.set_sel(2) tl_Nil)
  ultimately show ?thesis
    using d by (simp add: float_repr_digits_def Let_def exponent_text_def str_nat_no_newline)
qed

lemma floatstr_no_newline: "CHR 0x0A \<notin> set (floatstr f)"
  by (cases f) (simp_all add: float_repr_digits_no_newline)

lemma char_of_printable:
  assumes "0x20 \<le> c" and "c \<le> (0x7E::nat)"
  shows "of_char (char_of c) = c"
  using assms by (simp add: of_char_of)

lemma escape_char_no_newline: "CHR 0x0A \<notin> set (escape_char c)"
proof -
  have "char_of c \<noteq> CHR 0x0A" if "0x20 \<le> c" "c \<le> 0x7E"
  proof
    assume "char_of c = CHR 0x0A"
    then have "(of_char (char_of c) :: nat) = of_char (CHR 0x0A)" by simp
    with that show False by (simp add: char_of_printable)
  qed
  then show ?thesis
    by (auto simp: escape_char_def u_escape_def digit_char_not_newline)
qed

lemma encode_basestring_ascii_no_newline: "CHR 0x0A \<notin> set (encode_basestring_ascii s)"
  by (auto simp: encode_basestring_ascii_def escape_char_no_newline)

lemma json_text_no_newline: "CHR 0x0A \<notin> set (json_text v)"
proof (induction v)
  case (JArray xs)
  have "CHR 0x0A \<notin> set (join '', '' (map json_text xs))"
    by (rule join_no_newline) (use JArray in auto)
  then show ?case by simp
next
  case (JObject kvs)
  let ?f = "\<lambda>kv. encode_basestring_ascii (fst kv) @ '': '' @ json_text (snd kv)"
  have member: "CHR 0x0A \<notin> set (?f kv)" if "kv \<in> set kvs" for kv
  proof -
    have "snd kv \<in> Basic_BNFs.snds kv" by (cases kv) simp
    with JObject that have "CHR 0x0A \<notin> set (json_text (snd kv))" by blast
    then show ?thesis by (simp add: encode_basestring_ascii_no_newline)
  qed
  have "CHR 0x0A \<notin> set (join '', '' (map ?f kvs))"
  proof (rule join_no_newline)
    show "CHR 0x0A \<notin> set '', ''" by simp
    show "\<forall>x\<in>set (map ?f kvs). CHR 0x0A \<notin> set x"
      using member by (simp del: set_append)
  qed
  then show ?case by simp
qed (simp_all add: str_int_no_newline encode_basestring_ascii_no_newline floatstr_no_newline)

subsection \<open>Numbers are valid JSON\<close>

lemma is_hex_digit_char: "is_hex (digit_char d)"
  using digit_char_in [of d] by (auto simp: is_hex_def)

lemma digit_char_small:
  assumes "d < 10"
  shows "is_digit (digit_char d)" and "digit_char d = CHR ''0'' \<longleftrightarrow> d = 0"
proof -
  from assms have "d \<in> {0, 1, 2, 3, 4, 5, 6, 7, 8, 9}" by auto
  then show "is_digit (digit_char d)" and "digit_char d = CHR ''0'' \<longleftrightarrow> d = 0"
    by (auto simp: digit_char_def is_digit_def)
qed

lemma str_nat_zero: "str_nat 0 = ''0''"
  by (subst str_nat.simps) (simp add: digit_char_def)

lemma str_nat_shape:
  "0 < n \<Longrightarrow> \<exists>d ds. str_nat n = d # ds \<and> is_digit d \<and> d \<noteq> CHR ''0'' \<and> list_all is_digit ds"
proof (induction n rule: str_nat.induct)
  case (1 n)
  show ?case
  proof (cases "n < 10")
    case True
    with 1(2) have "is_digit (digit_char n)" "digit_char n \<noteq> CHR ''0''"
      by (simp_all add: digit_char_small)
    with True show ?thesis by (subst str_nat.simps) simp
  next
    case False
    then have "0 < n div 10" by simp
    with 1(1) False obtain d ds where
      s: "str_nat (n div 10) = d # ds" "is_digit d" "d \<noteq> CHR ''0''" "list_all is_digit ds"
      by blast
    have "is_digit (digit_char (n mod 10))" by (simp add: digit_char_small)
    with s False show ?thesis by (subst str_nat.simps) simp
  qed
qed

lemma str_nat_digits: "list_all is_digit (str_nat n)"
proof (cases "n = 0")
  case True
  then show ?thesis by (simp add: str_nat_zero is_digit_def)
next
  case False
  then show ?thesis using str_nat_shape [of n] by auto
qed

lemma is_digit_zero: "is_digit CHR ''0''"
  by (simp add: is_digit_def)

lemma zeros_digits: "list_all is_digit (replicate k CHR ''0'')"
  by (simp add: list_all_iff is_digit_zero)

lemma is_digit_not_special:
  assumes "is_digit c"
  shows "c \<noteq> CHR ''.''" "c \<noteq> CHR ''e''" "c \<noteq> CHR ''E''" "c \<noteq> CHR ''+''" "c \<noteq> CHR ''-''"
  using assms by (auto simp: is_digit_def)

lemma run_digits:
  "list_all is_digit ds \<Longrightarrow> run Digits K (ds @ rest) = run Digits K rest"
  "list_all is_digit ds \<Longrightarrow> run Frac K (ds @ rest) = run Frac K rest"
  "list_all is_digit ds \<Longrightarrow> run ExpDigits K (ds @ rest) = run ExpDigits K rest"
  by (induction ds) simp_all

lemma run_first_digit:
  assumes "list_all is_digit ds" and "ds \<noteq> []"
  shows "run Frac0 K (ds @ rest) = run Frac K rest"
    and "run ExpSign K (ds @ rest) = run ExpDigits K rest"
    and "run Exp0 K (ds @ rest) = run ExpDigits K rest"
  using assms by (cases ds; simp add: run_digits is_digit_not_special)+

lemma run_after_number:
  assumes "ends_number rest"
  shows "run Digits K rest = run After K rest"
    and "run Zero K rest = run After K rest"
    and "run Frac K rest = run After K rest"
    and "run ExpDigits K rest = run After K rest"
  using assms by (cases rest; auto simp: ends_number_def is_digit_def)+

lemma run_int_part:
  assumes "is_digit d" and "d \<noteq> CHR ''0''" and "list_all is_digit ds"
  shows "run Value K (d # ds @ rest) = run Digits K rest"
    and "run Minus K (d # ds @ rest) = run Digits K rest"
proof -
  from assms(1) have "d \<in> set ''0123456789''" by (simp add: is_digit_def)
  with assms(2) have "start_value K d = Some (Digits, K)"
    by (auto simp: start_value_def is_digit_def)
  with assms show "run Value K (d # ds @ rest) = run Digits K rest"
    and "run Minus K (d # ds @ rest) = run Digits K rest"
    by (simp_all add: run_digits)
qed

lemma run_zero_part:
  "run Value K (CHR ''0'' # rest) = run Zero K rest"
  "run Minus K (CHR ''0'' # rest) = run Zero K rest"
  by (simp_all add: start_value_def)

lemma run_str_nat:
  assumes "ends_number rest"
  shows "run Value K (str_nat n @ rest) = run After K rest"
    and "run Minus K (str_nat n @ rest) = run After K rest"
proof -
  have "run Value K (str_nat n @ rest) = run After K rest
        \<and> run Minus K (str_nat n @ rest) = run After K rest"
  proof (cases "n = 0")
    case True
    then show ?thesis
      by (simp add: str_nat_zero start_value_def run_after_number assms)
  next
    case False
    then obtain d ds where
      s: "str_nat n = d # ds" "is_digit d" "d \<noteq> CHR ''0''" "list_all is_digit ds"
      using str_nat_shape [of n] by auto
    show ?thesis
      using s run_int_part [of d ds K rest]
      by (simp add: run_after_number assms del: run.simps)
  qed
  then show "run Value K (str_nat n @ rest) = run After K rest"
    and "run Minus K (str_nat n @ rest) = run After K rest" by simp_all
qed

lemma run_str_int:
  "ends_number rest \<Longrightarrow> run Value K (str_int i @ rest) = run After K rest"
  by (simp add: str_int_def run_str_nat start_value_def)

lemma run_exponent:
  assumes "ends_number rest"
  shows "run Digits K (CHR ''e'' # exponent_text e @ rest) = run After K rest"
    and "run Frac K (CHR ''e'' # exponent_text e @ rest) = run After K rest"
proof -
  let ?ds = "(if \<bar>e\<bar> < 10 then [CHR ''0''] else []) @ str_nat (nat \<bar>e\<bar>)"
  have ds: "list_all is_digit ?ds" "?ds \<noteq> []"
    by (simp_all add: str_nat_digits str_nat_not_Nil is_digit_zero)
  have "run Exp0 K (exponent_text e @ rest) = run ExpSign K (?ds @ rest)"
    by (simp add: exponent_text_def is_digit_def)
  also have "\<dots> = run ExpDigits K rest"
    using ds by (rule run_first_digit(2))
  also have "\<dots> = run After K rest"
    using assms by (rule run_after_number(4))
  finally have "run Exp0 K (exponent_text e @ rest) = run After K rest" .
  then show "run Digits K (CHR ''e'' # exponent_text e @ rest) = run After K rest"
    and "run Frac K (CHR ''e'' # exponent_text e @ rest) = run After K rest"
    by (simp_all add: is_digit_def)
qed

lemma run_fraction:
  assumes "list_all is_digit ds" and "ds \<noteq> []"
  shows "run Digits K (CHR ''.'' # ds @ rest) = run Frac K rest"
    and "run Zero K (CHR ''.'' # ds @ rest) = run Frac K rest"
  using run_first_digit(1) [OF assms, of K rest] by (simp_all add: is_digit_def)

lemma run_float_repr_digits:
  assumes "ends_number rest"
  shows "run Value K (float_repr_digits m decpt @ rest) = run After K rest
         \<and> run Minus K (float_repr_digits m decpt @ rest) = run After K rest"
proof (cases "m = 0")
  case True
  have "run Zero K (CHR ''.'' # ''0'' @ rest) = run Frac K rest"
    by (rule run_fraction) (simp_all add: is_digit_zero)
  then show ?thesis
    using True assms
    by (simp add: float_repr_digits_def run_zero_part run_after_number del: run.simps)
next
  case False
  then obtain d ds where
    s: "str_nat m = d # ds" "is_digit d" "d \<noteq> CHR ''0''" "list_all is_digit ds"
    using str_nat_shape [of m] by auto
  have all: "list_all is_digit (d # ds)" using s by simp
  consider (exp) "decpt \<le> - 4 \<or> 16 < decpt"
    | (small) "\<not> (decpt \<le> - 4 \<or> 16 < decpt)" "decpt \<le> 0"
    | (whole) "\<not> (decpt \<le> - 4 \<or> 16 < decpt)" "\<not> decpt \<le> 0" "int (length (d # ds)) \<le> decpt"
    | (mixed) "\<not> (decpt \<le> - 4 \<or> 16 < decpt)" "\<not> decpt \<le> 0" "\<not> int (length (d # ds)) \<le> decpt"
    by blast
  then show ?thesis
  proof cases
    case exp
    let ?tail = "CHR ''e'' # exponent_text (decpt - 1) @ rest"
    have shape: "float_repr_digits m decpt @ rest
                = d # (if ds = [] then [] else CHR ''.'' # ds) @ ?tail"
      using False exp s by (simp add: float_repr_digits_def Let_def)
    have "run Digits K ((if ds = [] then [] else CHR ''.'' # ds) @ ?tail) = run After K rest"
    proof (cases "ds = []")
      case True
      then show ?thesis using assms by (simp add: run_exponent del: run.simps)
    next
      case False
      then have "run Digits K (CHR ''.'' # ds @ ?tail) = run Frac K ?tail"
        using s(4) by (intro run_fraction)
      with False show ?thesis using assms by (simp add: run_exponent del: run.simps)
    qed
    moreover have "run Value K (d # [] @ r) = run Digits K r"
      "run Minus K (d # [] @ r) = run Digits K r" for r
      using s by (intro run_int_part; simp)+
    ultimately show ?thesis
      by (simp add: shape del: run.simps)
  next
    case small
    let ?ds = "replicate (nat (- decpt)) CHR ''0'' @ d # ds"
    have shape: "float_repr_digits m decpt @ rest = CHR ''0'' # CHR ''.'' # ?ds @ rest"
      using False small s by (simp add: float_repr_digits_def Let_def)
    have "list_all is_digit ?ds" "?ds \<noteq> []"
      using all zeros_digits by simp_all
    then have "run Zero K (CHR ''.'' # ?ds @ rest) = run Frac K rest"
      by (rule run_fraction)
    then show ?thesis
      using assms by (simp add: shape run_zero_part run_after_number del: run.simps)
  next
    case whole
    let ?zeros = "replicate (nat decpt - length (d # ds)) CHR ''0''"
    have shape: "float_repr_digits m decpt @ rest
                = d # (ds @ ?zeros) @ CHR ''.'' # ''0'' @ rest"
      using False whole s by (simp add: float_repr_digits_def Let_def)
    have "list_all is_digit (ds @ ?zeros)"
      using s(4) zeros_digits by simp
    then have "run Value K (d # (ds @ ?zeros) @ r) = run Digits K r"
      "run Minus K (d # (ds @ ?zeros) @ r) = run Digits K r" for r
      using s by (intro run_int_part; simp)+
    moreover have "run Digits K (CHR ''.'' # ''0'' @ rest) = run Frac K rest"
      by (rule run_fraction) (simp_all add: is_digit_zero)
    ultimately show ?thesis
      using assms by (simp add: shape run_after_number del: run.simps)
  next
    case mixed
    let ?k = "nat decpt"
    from mixed have k: "0 < ?k" "?k < length (d # ds)" by auto
    then obtain j where j: "?k = Suc j" by (cases ?k) auto
    have shape: "float_repr_digits m decpt @ rest
                = d # take j ds @ CHR ''.'' # drop j ds @ rest"
      using False mixed s j by (simp add: float_repr_digits_def Let_def)
    have t: "list_all is_digit (take j ds)" and dr: "list_all is_digit (drop j ds)"
      using s(4) by (auto simp: list_all_iff dest: in_set_takeD in_set_dropD)
    have ne: "drop j ds \<noteq> []" using k j by simp
    have "run Value K (d # take j ds @ r) = run Digits K r" for r
      using s(2,3) t by (rule run_int_part(1))
    moreover have "run Minus K (d # take j ds @ r) = run Digits K r" for r
      using s(2,3) t by (rule run_int_part(2))
    moreover have "run Digits K (CHR ''.'' # drop j ds @ rest) = run Frac K rest"
      using dr ne by (rule run_fraction(1))
    ultimately show ?thesis
      using assms by (simp add: shape run_after_number del: run.simps)
  qed
qed

lemma run_floatstr:
  "ends_number rest \<Longrightarrow>
   run Value K (floatstr (FNum negative m decpt) @ rest) = run After K rest"
  using run_float_repr_digits [of rest K m decpt]
  by (simp add: start_value_def)

subsection \<open>Strings are valid JSON\<close>

lemma run_u_escape: "run (Str k) K (u_escape n @ rest) = run (Str k) K rest"
  by (simp add: u_escape_def is_hex_digit_char)

lemma char_of_printable_neq:
  assumes "0x20 \<le> c" and "c \<le> (0x7E::nat)" and "c \<noteq> of_char x"
  shows "char_of c \<noteq> x"
proof
  assume "char_of c = x"
  then have "(of_char (char_of c) :: nat) = of_char x" by simp
  with assms show False by (simp add: char_of_printable)
qed

lemma run_escape_char:
  "run (Str k) K (escape_char c @ rest) = run (Str k) K rest"
proof -
  have "run (Str k) K (char_of c # rest) = run (Str k) K rest"
    if "0x20 \<le> c" "c \<le> 0x7E" "c \<noteq> 0x22" "c \<noteq> 0x5C"
  proof -
    have "char_of c \<noteq> CHR 0x22"
      using that(1,2) by (rule char_of_printable_neq) (use that(3) in simp)
    moreover have "char_of c \<noteq> CHR 0x5C"
      using that(1,2) by (rule char_of_printable_neq) (use that(4) in simp)
    moreover have "\<not> (of_char (char_of c) :: nat) < 0x20"
      using that by (simp add: char_of_printable)
    ultimately show ?thesis by simp
  qed
  then show ?thesis
    by (simp add: escape_char_def run_u_escape del: run.simps) simp
qed

lemma run_string_body:
  "run (Str k) K (concat (map escape_char s) @ CHR 0x22 # rest)
   = run (if k then Colon else After) K rest"
  by (induction s) (simp_all add: run_escape_char)

lemma run_string_value:
  "run Value K (encode_basestring_ascii s @ rest) = run After K rest"
  using run_string_body [of False K s rest]
  by (simp add: encode_basestring_ascii_def start_value_def)

lemma run_string_key:
  "run Key K (encode_basestring_ascii s @ rest) = run Colon K rest"
  "run KeyOrClose K (encode_basestring_ascii s @ rest) = run Colon K rest"
  using run_string_body [of True K s rest]
  by (simp_all add: encode_basestring_ascii_def)

subsection \<open>Every text written without \<^verbatim>\<open>NaN\<close> and \<^verbatim>\<open>Infinity\<close> is valid JSON\<close>

lemma join_first:
  "xs \<noteq> [] \<Longrightarrow> hd xs = c # cs \<Longrightarrow> \<exists>cs'. join sep xs = c # cs'"
  by (induction sep xs rule: join.induct) auto

lemma ends_number_simps:
  "ends_number []" "ends_number (CHR '']'' # s)" "ends_number (CHR ''}'' # s)"
  "ends_number (CHR '','' # s)"
  by (simp_all add: ends_number_def)

lemma accepted_first:
  assumes "run Value [] t"
  shows "\<exists>c cs. t = c # cs \<and> c \<noteq> CHR '']''"
proof (cases t)
  case Nil
  with assms show ?thesis by simp
next
  case (Cons c cs)
  have "start_value [] CHR '']'' = None"
    by (simp add: start_value_def is_digit_def)
  with assms Cons show ?thesis by auto
qed

lemma run_elements:
  assumes "xs \<noteq> []"
    and "\<And>x K rest. x \<in> set xs \<Longrightarrow> ends_number rest \<Longrightarrow>
           run Value K (json_text x @ rest) = run After K rest"
  shows "run Value (InArray # K) (join '', '' (map json_text xs) @ CHR '']'' # rest)
         = run After K rest"
  using assms
proof (induction xs)
  case Nil
  then show ?case by simp
next
  case (Cons x xs)
  show ?case
  proof (cases xs)
    case Nil
    have "run Value (InArray # K) (json_text x @ CHR '']'' # rest)
          = run After (InArray # K) (CHR '']'' # rest)"
      by (rule Cons.prems(2)) (simp_all add: ends_number_simps)
    with Nil show ?thesis by simp
  next
    case (Cons y ys)
    let ?more = "join '', '' (map json_text xs) @ CHR '']'' # rest"
    have "run Value (InArray # K) (json_text x @ CHR '','' # CHR '' '' # ?more)
          = run After (InArray # K) (CHR '','' # CHR '' '' # ?more)"
      by (rule Cons.prems(2)) (simp_all add: ends_number_simps)
    also have "\<dots> = run Value (InArray # K) ?more"
      by (simp add: start_value_def)
    also have "\<dots> = run After K rest"
      using Cons Cons.prems(2) by (intro Cons.IH) simp_all
    finally show ?thesis
      using Cons by simp
  qed
qed

lemma run_members:
  assumes "kvs \<noteq> []"
    and "\<And>kv K rest. kv \<in> set kvs \<Longrightarrow> ends_number rest \<Longrightarrow>
           run Value K (json_text (snd kv) @ rest) = run After K rest"
  shows "run Key (InObject # K)
           (join '', '' (map (\<lambda>kv. encode_basestring_ascii (fst kv) @ '': ''
                                     @ json_text (snd kv)) kvs) @ CHR ''}'' # rest)
         = run After K rest"
  using assms
proof (induction kvs)
  case Nil
  then show ?case by simp
next
  case (Cons kv kvs)
  let ?f = "\<lambda>kv. encode_basestring_ascii (fst kv) @ '': '' @ json_text (snd kv)"
  have member: "run Key (InObject # K) (?f kv @ r) = run After (InObject # K) r"
    if "ends_number r" for r
  proof -
    have "run Key (InObject # K) (?f kv @ r)
          = run Colon (InObject # K) (CHR '':'' # CHR '' '' # json_text (snd kv) @ r)"
      using run_string_key(1) [of "InObject # K" "fst kv" "'': '' @ json_text (snd kv) @ r"]
      by simp
    also have "\<dots> = run Value (InObject # K) (json_text (snd kv) @ r)"
      by (simp add: start_value_def)
    also have "\<dots> = run After (InObject # K) r"
      using that by (intro Cons.prems(2)) simp_all
    finally show ?thesis .
  qed
  show ?case
  proof (cases kvs)
    case Nil
    have "run Key (InObject # K) (?f kv @ CHR ''}'' # rest)
          = run After (InObject # K) (CHR ''}'' # rest)"
      by (rule member) (simp add: ends_number_simps)
    with Nil show ?thesis by simp
  next
    case (Cons kv' kvs')
    let ?more = "join '', '' (map ?f kvs) @ CHR ''}'' # rest"
    have "run Key (InObject # K) (?f kv @ CHR '','' # CHR '' '' # ?more)
          = run After (InObject # K) (CHR '','' # CHR '' '' # ?more)"
      by (rule member) (simp add: ends_number_simps)
    also have "\<dots> = run Key (InObject # K) ?more"
      by simp
    also have "\<dots> = run After K rest"
      using Cons Cons.prems(2) by (intro Cons.IH) simp_all
    finally show ?thesis
      using Cons by simp
  qed
qed

lemma run_json_text:
  "finite_floats v \<Longrightarrow> ends_number rest \<Longrightarrow>
   run Value K (json_text v @ rest) = run After K rest"
proof (induction v arbitrary: K rest)
  case JNull
  then show ?case by (simp add: start_value_def)
next
  case (JBool b)
  then show ?case by (simp add: start_value_def)
next
  case (JInt i)
  then show ?case by (simp add: run_str_int)
next
  case (JFloat f)
  then show ?case
    by (cases f) (simp_all add: run_floatstr del: floatstr.simps)
next
  case (JString s)
  then show ?case by (simp add: run_string_value)
next
  case (JArray xs)
  have ih: "run Value K' (json_text x @ r) = run After K' r"
    if "x \<in> set xs" "ends_number r" for x K' r
    using that JArray.prems(1) by (intro JArray.IH) simp_all
  show ?case
  proof (cases "xs = []")
    case True
    then show ?thesis by (simp add: start_value_def)
  next
    case False
    then have "run Value [] (json_text (hd xs) @ [])"
      using ih [of "hd xs" "[]" "[]"] by (simp add: ends_number_simps)
    then obtain c cs where "json_text (hd xs) = c # cs" "c \<noteq> CHR '']''"
      using accepted_first [of "json_text (hd xs)"] by auto
    with False obtain cs' where first: "join '', '' (map json_text xs) = c # cs'"
      using join_first [of "map json_text xs" c cs "'', ''"] by (auto simp: hd_map)
    have "run Value K (json_text (JArray xs) @ rest)
          = run ValueOrClose (InArray # K)
              (join '', '' (map json_text xs) @ CHR '']'' # rest)"
      by (simp add: start_value_def)
    also have "\<dots> = run Value (InArray # K)
              (join '', '' (map json_text xs) @ CHR '']'' # rest)"
      using \<open>c \<noteq> CHR '']''\<close> by (simp add: first)
    also have "\<dots> = run After K rest"
      using False ih by (intro run_elements) simp_all
    finally show ?thesis .
  qed
next
  case (JObject kvs)
  let ?f = "\<lambda>kv. encode_basestring_ascii (fst kv) @ '': '' @ json_text (snd kv)"
  show ?case
  proof (cases "kvs = []")
    case True
    then show ?thesis by (simp add: start_value_def)
  next
    case False
    have ih: "run Value K' (json_text (snd kv) @ r) = run After K' r"
      if "kv \<in> set kvs" "ends_number r" for kv K' r
    proof -
      have "snd kv \<in> Basic_BNFs.snds kv" by (cases kv) simp
      moreover have "finite_floats (snd kv)" using that(1) JObject.prems(1) by simp
      ultimately show ?thesis using that by (intro JObject.IH)
    qed
    obtain cs' where first:
      "join '', '' (map ?f kvs) = CHR 0x22 # cs'"
      using False
        join_first [of "map ?f kvs" "CHR 0x22"
          "concat (map escape_char (fst (hd kvs))) @ [CHR 0x22] @ '': ''
             @ json_text (snd (hd kvs))" "'', ''"]
      by (auto simp: hd_map encode_basestring_ascii_def)
    have "run Value K (json_text (JObject kvs) @ rest)
          = run KeyOrClose (InObject # K) (join '', '' (map ?f kvs) @ CHR ''}'' # rest)"
      by (simp add: start_value_def)
    also have "\<dots> = run Key (InObject # K) (join '', '' (map ?f kvs) @ CHR ''}'' # rest)"
      unfolding first by simp
    also have "\<dots> = run After K rest"
      using False ih by (intro run_members) simp_all
    finally show ?thesis .
  qed
qed

lemma valid_json_text: "finite_floats v \<Longrightarrow> valid_json (json_text v)"
  using run_json_text [of v "[]" "[]"]
  by (simp add: valid_json_def ends_number_simps)

lemma valid_json_object_text:
  "finite_floats v \<Longrightarrow> is_dict v \<Longrightarrow> valid_json_object (json_text v)"
  using valid_json_text [of v]
  by (cases v) (simp_all add: valid_json_object_def del: json_text.simps, simp_all)

subsection \<open>The lines of the output\<close>

lemma dumps_each_eq: "dumps_each py records = encode_items py 0 records"
  by (induction records) (simp_all add: json_dumps_def split: sum.splits)

lemma format_as_jsonl_array:
  "fst (format_as_jsonl py (JArray records) tr) =
     (case encode_items py 0 records of
        Inl e \<Rightarrow> Inl e
      | Inr texts \<Rightarrow> Inr (join [CHR 0x0A] texts))"
  by (simp add: format_as_jsonl_def dumps_each_eq Let_def split: sum.splits)

text \<open>
  Claim C7, amended. \<^verbatim>\<open>format_as_jsonl\<close> gives the empty text for the empty list. When
  \<^verbatim>\<open>json.dumps\<close> raises for no record (every int within the interpreter's digit limit,
  the nesting within its recursion limit), the output is the records' \<^verbatim>\<open>json.dumps\<close>
  texts joined by single newlines: two records give exactly two lines, and in general
  the lines are the texts of the records, one per record, in the order of the input,
  with no newline inside a text and none after the last; when it raises for a record,
  that exception leaves \<^verbatim>\<open>format_as_jsonl\<close> and there is no output. A line is a valid
  JSON text by itself when its record holds no \<^verbatim>\<open>NaN\<close> and no infinite float, and a
  JSON object when moreover the record is a dict.
\<close>

theorem format_as_jsonl_lines:
  "fst (format_as_jsonl py (JArray []) tr) = Inr []
   \<and> (dumps_each py records = Inr texts \<longrightarrow>
        fst (format_as_jsonl py (JArray records) tr) = Inr (join [CHR 0x0A] texts)
        \<and> texts = map json_text records
        \<and> (records \<noteq> [] \<longrightarrow> split_lines (join [CHR 0x0A] texts) = texts))
   \<and> (dumps_each py records = Inl e \<longrightarrow>
        fst (format_as_jsonl py (JArray records) tr) = Inl e)
   \<and> ((\<forall>x\<in>set records. fits py 0 x) \<longrightarrow>
        dumps_each py records = Inr (map json_text records))
   \<and> (fits py 0 r1 \<and> fits py 0 r2 \<longrightarrow>
        fst (format_as_jsonl py (JArray [r1, r2]) tr)
          = Inr (json_text r1 @ [CHR 0x0A] @ json_text r2)
        \<and> split_lines (json_text r1 @ [CHR 0x0A] @ json_text r2)
          = [json_text r1, json_text r2])
   \<and> CHR 0x0A \<notin> set (json_text r)
   \<and> (finite_floats r \<longrightarrow> valid_json (json_text r))
   \<and> (finite_floats r \<and> is_dict r \<longrightarrow> valid_json_object (json_text r))"
proof -
  have empty: "fst (format_as_jsonl py (JArray []) tr) = Inr []"
    by (simp add: format_as_jsonl_array)
  have returned: "fst (format_as_jsonl py (JArray records) tr) = Inr (join [CHR 0x0A] texts)
        \<and> texts = map json_text records
        \<and> (records \<noteq> [] \<longrightarrow> split_lines (join [CHR 0x0A] texts) = texts)"
    if enc: "encode_items py 0 records = Inr texts"
  proof -
    have t: "texts = map json_text records"
      using enc by (rule encode_text(2))
    have "split_lines (join [CHR 0x0A] texts) = texts" if "records \<noteq> []"
      using that unfolding t
      by (intro split_lines_join) (auto simp: json_text_no_newline)
    then show ?thesis
      using t enc by (simp add: format_as_jsonl_array)
  qed
  have raised: "fst (format_as_jsonl py (JArray records) tr) = Inl e"
    if "encode_items py 0 records = Inl e"
    using that by (simp add: format_as_jsonl_array)
  have total: "encode_items py 0 records = Inr (map json_text records)"
    if "\<forall>x\<in>set records. fits py 0 x"
    using that by (rule encode_fits(2))
  have two: "fst (format_as_jsonl py (JArray [r1, r2]) tr)
          = Inr (json_text r1 @ [CHR 0x0A] @ json_text r2)
        \<and> split_lines (json_text r1 @ [CHR 0x0A] @ json_text r2)
          = [json_text r1, json_text r2]"
    if "fits py 0 r1 \<and> fits py 0 r2"
  proof -
    have "encode_items py 0 [r1, r2] = Inr (map json_text [r1, r2])"
      using that by (intro encode_fits(2)) simp
    moreover have "split_lines (json_text r1 @ [CHR 0x0A] @ json_text r2)
                   = [json_text r1, json_text r2]"
      by (simp add: split_lines_append split_lines_no_newline json_text_no_newline)
    ultimately show ?thesis
      by (simp add: format_as_jsonl_array del: encode.simps encode_items.simps)
  qed
  show ?thesis
    unfolding dumps_each_eq
    using empty returned raised total two
      json_text_no_newline [of r] valid_json_text [of r] valid_json_object_text [of r]
    by blast
qed

theorem format_as_jsonl_lines_witness:
  "fst (format_as_jsonl cpython
          (JArray [JObject [(ascii ''PlayerID'', JInt 1),
                            (ascii ''Points'', JFloat (FNum False 105 2))],
                   JObject [(ascii ''PlayerID'', JInt 2),
                            (ascii ''Points'', JFloat (FNum False 5 1))]]) [])
     = Inr (''{'' @ [CHR 0x22] @ ''PlayerID'' @ [CHR 0x22] @ '': 1, ''
              @ [CHR 0x22] @ ''Points'' @ [CHR 0x22] @ '': 10.5}'' @ [CHR 0x0A]
            @ ''{'' @ [CHR 0x22] @ ''PlayerID'' @ [CHR 0x22] @ '': 2, ''
              @ [CHR 0x22] @ ''Points'' @ [CHR 0x22] @ '': 5.0}'')
   \<and> split_lines (''{'' @ [CHR 0x22] @ ''PlayerID'' @ [CHR 0x22] @ '': 1, ''
              @ [CHR 0x22] @ ''Points'' @ [CHR 0x22] @ '': 10.5}'' @ [CHR 0x0A]
            @ ''{'' @ [CHR 0x22] @ ''PlayerID'' @ [CHR 0x22] @ '': 2, ''
              @ [CHR 0x22] @ ''Points'' @ [CHR 0x22] @ '': 5.0}'')
     = [''{'' @ [CHR 0x22] @ ''PlayerID'' @ [CHR 0x22] @ '': 1, ''
              @ [CHR 0x22] @ ''Points'' @ [CHR 0x22] @ '': 10.5}'',
        ''{'' @ [CHR 0x22] @ ''PlayerID'' @ [CHR 0x22] @ '': 2, ''
              @ [CHR 0x22] @ ''Points'' @ [CHR 0x22] @ '': 5.0}'']
   \<and> valid_json_object (''{'' @ [CHR 0x22] @ ''PlayerID'' @ [CHR 0x22] @ '': 1, ''
              @ [CHR 0x22] @ ''Points'' @ [CHR 0x22] @ '': 10.5}'')"
proof -
  let ?r1 = "JObject [(ascii ''PlayerID'', JInt 1),
                      (ascii ''Points'', JFloat (FNum False 105 2))]"
  let ?r2 = "JObject [(ascii ''PlayerID'', JInt 2),
                      (ascii ''Points'', JFloat (FNum False 5 1))]"
  have t: "json_text ?r1 = ''{'' @ [CHR 0x22] @ ''PlayerID'' @ [CHR 0x22] @ '': 1, ''
              @ [CHR 0x22] @ ''Points'' @ [CHR 0x22] @ '': 10.5}''"
    "json_text ?r2 = ''{'' @ [CHR 0x22] @ ''PlayerID'' @ [CHR 0x22] @ '': 2, ''
              @ [CHR 0x22] @ ''Points'' @ [CHR 0x22] @ '': 5.0}''"
    by code_simp+
  have f: "fits cpython 0 ?r1 \<and> fits cpython 0 ?r2"
    by code_simp
  have n: "finite_floats ?r1 \<and> is_dict ?r1"
    by simp
  note lines = format_as_jsonl_lines
    [of cpython "[]" "[?r1, ?r2]" "map json_text [?r1, ?r2]" "Exception []" ?r1 ?r2 ?r1]
  note rest = lines [THEN conjunct2, THEN conjunct2, THEN conjunct2, THEN conjunct2]
  note two = rest [THEN conjunct1, THEN mp, OF f]
  note object = rest [THEN conjunct2, THEN conjunct2, THEN conjunct2, THEN mp, OF n]
  show ?thesis
    using two object unfolding t by simp
qed

theorem nan_line_counterexample:
  "fst (format_as_jsonl cpython
          (JArray [JObject [(ascii ''PlayerID'', JInt 1), (ascii ''Points'', JFloat FNaN)]]) [])
     = Inr (''{'' @ [CHR 0x22] @ ''PlayerID'' @ [CHR 0x22] @ '': 1, ''
              @ [CHR 0x22] @ ''Points'' @ [CHR 0x22] @ '': NaN}'')
   \<and> \<not> valid_json (''{'' @ [CHR 0x22] @ ''PlayerID'' @ [CHR 0x22] @ '': 1, ''
              @ [CHR 0x22] @ ''Points'' @ [CHR 0x22] @ '': NaN}'')"
  by code_simp

end
